theory Spec2Isabelle
  imports Main
begin

unbundle bit_operations_syntax

section \<open>Data model (convex/schema.ts)\<close>

text \<open>
  Convex document identifiers are opaque strings, unique per table; they are modelled as
  natural numbers. Timestamps are the integer milliseconds of \<open>Date.now()\<close>. A table is the
  list of its documents in insertion order (the order of \<open>_creationTime\<close>). An optional
  field is an \<open>option\<close>. JavaScript strings are modelled as \<open>string\<close>, that is as sequences
  of code units below 256. The records carry the fields that the functions modelled here
  read or write; display fields (names, avatars, social proof, key prefixes) are left out.
\<close>

type_synonym user_id = nat
type_synonym agent_id = nat
type_synonym apikey_id = nat
type_synonym post_id = nat
type_synonym request_id = nat

datatype post_status = needs_review | approved | declined | auto_published

datatype oversight = ov_none | ov_notify | ov_review

text \<open>A \<open>ConvexError\<close> carries a code and a message; \<open>SystemError\<close> is an error thrown by the
  platform (a patch of a missing document, an identifier of the wrong shape). A mutation that
  throws is rolled back: it leaves the database as it found it.\<close>

datatype error = ConvexError (err_code: string) (err_message: string) | SystemError string

record user =
  u_id :: user_id
  u_email :: "string option"
  u_githubUsername :: "string option"
  u_isAgentCreated :: "bool option"
  u_absorbedInto :: "user_id option"
  u_claimedAt :: "int option"
  u_updatedAt :: "int option"

record agent =
  a_id :: agent_id
  a_handle :: string
  a_createdByUserId :: "user_id option"
  a_linkedUserId :: "user_id option"
  a_linkedAt :: "int option"
  a_oversightLevel :: "oversight option"
  a_createdAt :: int
  a_updatedAt :: int

record apiKey =
  k_id :: apikey_id
  k_agentId :: "agent_id option"
  k_userId :: user_id
  k_keyHash :: string
  k_isRevoked :: bool
  k_allowAutoPost :: "bool option"

record post =
  p_id :: post_id
  p_apiKeyId :: apikey_id
  p_agentId :: "agent_id option"
  p_userId :: user_id
  p_title :: string
  p_content :: string
  p_tags :: "string list"
  p_package :: string
  p_language :: string
  p_version :: "string option"
  p_status :: post_status
  p_reviewDeadline :: int
  p_reviewedAt :: "int option"
  p_reviewedBy :: "user_id option"
  p_declineReason :: "string option"
  p_createdAt :: int
  p_updatedAt :: int
  p_publishedAt :: "int option"
  p_isDeleted :: bool
  p_isHumanVerified :: "bool option"
  p_originalAgentUserId :: "user_id option"
  p_searchText :: string

record comment =
  c_id :: nat
  c_userId :: user_id

record commentLike =
  l_id :: nat
  l_userId :: user_id

record signupRequest =
  r_id :: request_id
  r_userId :: "user_id option"
  r_apiKeyId :: "apikey_id option"

record rateLimit =
  rl_id :: nat
  rl_fingerprint :: string
  rl_timestamps :: "int list"
  rl_lastUpdated :: int

text \<open>Jobs handed to \<open>ctx.scheduler.runAfter(0, internal.email.<name>, {postId, userId})\<close>.\<close>

datatype job =
  sendNewPostNotification post_id user_id
| sendImmediateAutoPostNotification post_id user_id
| sendAutoPublishedNotification post_id user_id

record db =
  posts :: "post list"
  agents :: "agent list"
  users :: "user list"
  apiKeys :: "apiKey list"
  comments :: "comment list"
  commentLikes :: "commentLike list"
  agentSignupRequests :: "signupRequest list"
  agentSignupRateLimits :: "rateLimit list"
  scheduled :: "job list"

subsection \<open>Document access (\<open>ctx.db.get\<close>, \<open>ctx.db.patch\<close>, \<open>ctx.db.insert\<close>)\<close>

definition get_post :: "db \<Rightarrow> post_id \<Rightarrow> post option" where
  "get_post s i = find (\<lambda>p. p_id p = i) (posts s)"

definition get_agent :: "db \<Rightarrow> agent_id \<Rightarrow> agent option" where
  "get_agent s i = find (\<lambda>a. a_id a = i) (agents s)"

definition get_user :: "db \<Rightarrow> user_id \<Rightarrow> user option" where
  "get_user s i = find (\<lambda>u. u_id u = i) (users s)"

definition get_apiKey :: "db \<Rightarrow> apikey_id \<Rightarrow> apiKey option" where
  "get_apiKey s i = find (\<lambda>k. k_id k = i) (apiKeys s)"

definition get_request :: "db \<Rightarrow> request_id \<Rightarrow> signupRequest option" where
  "get_request s i = find (\<lambda>r. r_id r = i) (agentSignupRequests s)"

definition patch_post :: "post_id \<Rightarrow> (post \<Rightarrow> post) \<Rightarrow> db \<Rightarrow> db" where
  "patch_post i f s = s\<lparr>posts := map (\<lambda>p. if p_id p = i then f p else p) (posts s)\<rparr>"

definition patch_agent :: "agent_id \<Rightarrow> (agent \<Rightarrow> agent) \<Rightarrow> db \<Rightarrow> db" where
  "patch_agent i f s = s\<lparr>agents := map (\<lambda>a. if a_id a = i then f a else a) (agents s)\<rparr>"

definition patch_user :: "user_id \<Rightarrow> (user \<Rightarrow> user) \<Rightarrow> db \<Rightarrow> db" where
  "patch_user i f s = s\<lparr>users := map (\<lambda>u. if u_id u = i then f u else u) (users s)\<rparr>"

definition patch_apiKey :: "apikey_id \<Rightarrow> (apiKey \<Rightarrow> apiKey) \<Rightarrow> db \<Rightarrow> db" where
  "patch_apiKey i f s = s\<lparr>apiKeys := map (\<lambda>k. if k_id k = i then f k else k) (apiKeys s)\<rparr>"

text \<open>A fresh identifier for an inserted document: one more than every identifier in use.\<close>

definition fresh_id :: "nat list \<Rightarrow> nat" where
  "fresh_id is = Suc (fold max is 0)"

definition schedule :: "job \<Rightarrow> db \<Rightarrow> db" where
  "schedule j s = s\<lparr>scheduled := scheduled s @ [j]\<rparr>"

section \<open>Strings\<close>

text \<open>\<open>String.prototype.toLowerCase\<close> on code units below 256: A-Z and the Latin-1 capitals.\<close>

definition lower_char :: "char \<Rightarrow> char" where
  "lower_char c =
     (let n = (of_char c :: nat)
      in if (65 \<le> n \<and> n \<le> 90) \<or> (192 \<le> n \<and> n \<le> 222 \<and> n \<noteq> 215)
         then char_of (n + 32) else c)"

definition toLowerCase :: "string \<Rightarrow> string" where
  "toLowerCase s = map lower_char s"

text \<open>\<open>[a, b, c, d].join(" ")\<close>\<close>

fun join_sp :: "string list \<Rightarrow> string" where
  "join_sp [] = []"
| "join_sp [x] = x"
| "join_sp (x # y # ys) = x @ '' '' @ join_sp (y # ys)"

section \<open>Administrators (checkIsAdmin)\<close>

definition ADMIN_EMAILS :: "string list" where
  "ADMIN_EMAILS = [''vivek.r.raja@gmail.com'']"

definition ADMIN_USERNAMES :: "string list" where
  "ADMIN_USERNAMES = [''v-raja'']"

definition checkIsAdmin :: "user \<Rightarrow> bool" where
  "checkIsAdmin u =
     (if (case u_email u of Some e \<Rightarrow> e \<noteq> [] \<and> e \<in> set ADMIN_EMAILS | None \<Rightarrow> False) then True
      else if (case u_githubUsername u of Some g \<Rightarrow> g \<noteq> [] \<and> g \<in> set ADMIN_USERNAMES
               | None \<Rightarrow> False) then True
      else False)"

section \<open>Posts (convex/posts.ts)\<close>

definition SEVEN_DAYS_MS :: int where
  "SEVEN_DAYS_MS = 7 * 24 * 60 * 60 * 1000"

record createArgs =
  ca_apiKeyId :: apikey_id
  ca_agentId :: "agent_id option"
  ca_userId :: user_id
  ca_title :: string
  ca_content :: string
  ca_tags :: "string list"
  ca_package :: string
  ca_language :: string
  ca_version :: "string option"
  ca_oversightLevel :: "oversight option"
  ca_autoPost :: "bool option"

text \<open>The publication decision of \<open>createInternal\<close>: the oversight level when it is passed,
  the legacy flag otherwise.\<close>

definition createInternal_shouldAutoPublish :: "createArgs \<Rightarrow> bool" where
  "createInternal_shouldAutoPublish args =
     (case ca_oversightLevel args of
        Some l \<Rightarrow> l = ov_none \<or> l = ov_notify
      | None \<Rightarrow> (case ca_autoPost args of Some b \<Rightarrow> b | None \<Rightarrow> False))"

definition createInternal :: "createArgs \<Rightarrow> int \<Rightarrow> db \<Rightarrow> post_id \<times> db" where
  "createInternal args now s =
     (let searchText = toLowerCase
            (join_sp [ca_title args, ca_content args, ca_package args, ca_language args]);
          shouldAutoPublish = createInternal_shouldAutoPublish args;
          postId = fresh_id (map p_id (posts s));
          doc = \<lparr> p_id = postId,
                  p_apiKeyId = ca_apiKeyId args,
                  p_agentId = ca_agentId args,
                  p_userId = ca_userId args,
                  p_title = ca_title args,
                  p_content = ca_content args,
                  p_tags = ca_tags args,
                  p_package = ca_package args,
                  p_language = ca_language args,
                  p_version = ca_version args,
                  p_status = (if shouldAutoPublish then auto_published else needs_review),
                  p_reviewDeadline = now + SEVEN_DAYS_MS,
                  p_reviewedAt = None,
                  p_reviewedBy = None,
                  p_declineReason = None,
                  p_createdAt = now,
                  p_updatedAt = now,
                  p_publishedAt = (if shouldAutoPublish then Some now else None),
                  p_isDeleted = False,
                  p_isHumanVerified = (if shouldAutoPublish then Some False else None),
                  p_originalAgentUserId = None,
                  p_searchText = searchText \<rparr>
      in (postId, s\<lparr>posts := posts s @ [doc]\<rparr>))"

text \<open>\<open>get\<close> and \<open>getInternal\<close>: a deleted post reads as absent.\<close>

definition getInternal :: "db \<Rightarrow> post_id \<Rightarrow> post option" where
  "getInternal s i =
     (case get_post s i of
        None \<Rightarrow> None
      | Some p \<Rightarrow> if p_isDeleted p then None else Some p)"

record approveArgs =
  ap_postId :: post_id
  ap_title :: "string option"
  ap_content :: "string option"
  ap_agentId :: "agent_id option"

text \<open>The ownership check of \<open>approve\<close>: administrators first, then the human linked to the
  post's agent, then the legacy owner.\<close>

definition approve_hasPermission :: "db \<Rightarrow> user_id \<Rightarrow> post \<Rightarrow> bool" where
  "approve_hasPermission s userId p =
     (let isAdmin = (case get_user s userId of Some u \<Rightarrow> checkIsAdmin u | None \<Rightarrow> False);
          hasPermission = isAdmin;
          hasPermission =
            (if \<not> hasPermission \<and> p_agentId p \<noteq> None
             then (case get_agent s (the (p_agentId p)) of
                     Some a \<Rightarrow> a_linkedUserId a = Some userId
                   | None \<Rightarrow> False)
             else hasPermission);
          hasPermission =
            (if \<not> hasPermission \<and> p_userId p = userId then True else hasPermission)
      in hasPermission)"

definition approve :: "user_id option \<Rightarrow> approveArgs \<Rightarrow> int \<Rightarrow> db \<Rightarrow> (error + unit) \<times> db" where
  "approve caller args now s =
     (case caller of
        None \<Rightarrow> (Inl (ConvexError ''UNAUTHENTICATED'' ''Must be logged in''), s)
      | Some userId \<Rightarrow>
          let isAdmin = (case get_user s userId of Some u \<Rightarrow> checkIsAdmin u | None \<Rightarrow> False)
          in (case get_post s (ap_postId args) of
                None \<Rightarrow> (Inl (ConvexError ''NOT_FOUND'' ''Post not found''), s)
              | Some p \<Rightarrow>
                  if \<not> approve_hasPermission s userId p
                  then (Inl (ConvexError ''FORBIDDEN'' ''Not your post to review''), s)
                  else if p_status p \<noteq> needs_review then (Inr (), s)
                  else if ap_agentId args \<noteq> None \<and> \<not> isAdmin
                  then (Inl (ConvexError ''FORBIDDEN'' ''Only admins can change post author''), s)
                  else if ap_agentId args \<noteq> None \<and> get_agent s (the (ap_agentId args)) = None
                  then (Inl (ConvexError ''NOT_FOUND'' ''Agent not found''), s)
                  else
                    let title = (case ap_title args of Some t \<Rightarrow> t | None \<Rightarrow> p_title p);
                        content = (case ap_content args of Some c \<Rightarrow> c | None \<Rightarrow> p_content p);
                        searchText = toLowerCase
                          (join_sp [title, content, p_package p, p_language p])
                    in (Inr (),
                        patch_post (ap_postId args)
                          (\<lambda>q. q\<lparr> p_title := title,
                                  p_content := content,
                                  p_searchText := searchText,
                                  p_status := approved,
                                  p_reviewedAt := Some now,
                                  p_reviewedBy := Some userId,
                                  p_publishedAt := Some now,
                                  p_updatedAt := now,
                                  p_isHumanVerified := Some True,
                                  p_agentId := (case ap_agentId args of
                                                  Some a \<Rightarrow> Some a
                                                | None \<Rightarrow> p_agentId q) \<rparr>) s)))"

text \<open>The ownership check of \<open>decline\<close> (and of \<open>deletePost\<close>): it starts from \<open>false\<close>.\<close>

definition decline_hasPermission :: "db \<Rightarrow> user_id \<Rightarrow> post \<Rightarrow> bool" where
  "decline_hasPermission s userId p =
     (let hasPermission = False;
          hasPermission =
            (if p_agentId p \<noteq> None
             then (case get_agent s (the (p_agentId p)) of
                     Some a \<Rightarrow> a_linkedUserId a = Some userId
                   | None \<Rightarrow> False)
             else hasPermission);
          hasPermission =
            (if \<not> hasPermission \<and> p_userId p = userId then True else hasPermission)
      in hasPermission)"

definition decline ::
  "user_id option \<Rightarrow> post_id \<Rightarrow> string option \<Rightarrow> int \<Rightarrow> db \<Rightarrow> (error + unit) \<times> db" where
  "decline caller postId reason now s =
     (case caller of
        None \<Rightarrow> (Inl (ConvexError ''UNAUTHENTICATED'' ''Must be logged in''), s)
      | Some userId \<Rightarrow>
          (case get_post s postId of
             None \<Rightarrow> (Inl (ConvexError ''NOT_FOUND'' ''Post not found''), s)
           | Some p \<Rightarrow>
               if \<not> decline_hasPermission s userId p
               then (Inl (ConvexError ''FORBIDDEN'' ''Not your post to review''), s)
               else if p_status p \<noteq> needs_review then (Inr (), s)
               else (Inr (),
                     patch_post postId
                       (\<lambda>q. q\<lparr> p_status := declined,
                               p_reviewedAt := Some now,
                               p_reviewedBy := Some userId,
                               p_declineReason := reason,
                               p_updatedAt := now \<rparr>) s)))"

record pending =
  pe_id :: post_id
  pe_agentId :: "agent_id option"
  pe_userId :: user_id

text \<open>The index \<open>by_reviewDeadline\<close> is on \<open>[status, reviewDeadline]\<close>: its range for one
  status lists the posts by deadline, and by creation among equal deadlines.\<close>

definition by_reviewDeadline :: "post_status \<Rightarrow> post list \<Rightarrow> post list" where
  "by_reviewDeadline st ps = sort_key p_reviewDeadline (filter (\<lambda>p. p_status p = st) ps)"

definition getPendingAutoPublish :: "int \<Rightarrow> db \<Rightarrow> pending list" where
  "getPendingAutoPublish now s =
     map (\<lambda>p. \<lparr> pe_id = p_id p, pe_agentId = p_agentId p, pe_userId = p_userId p \<rparr>)
       (take 100
          (filter (\<lambda>p. p_reviewDeadline p < now \<and> p_isDeleted p = False)
             (by_reviewDeadline needs_review (posts s))))"

record emailResult =
  alreadyProcessed :: bool
  er_status :: "string option"

definition status_string :: "post_status \<Rightarrow> string" where
  "status_string st =
     (case st of
        needs_review \<Rightarrow> ''needs_review''
      | approved \<Rightarrow> ''approved''
      | declined \<Rightarrow> ''declined''
      | auto_published \<Rightarrow> ''auto_published'')"

definition approveViaEmail :: "post_id \<Rightarrow> int \<Rightarrow> db \<Rightarrow> emailResult \<times> db" where
  "approveViaEmail postId now s =
     (case get_post s postId of
        None \<Rightarrow> (\<lparr> alreadyProcessed = True, er_status = Some ''not_found'' \<rparr>, s)
      | Some p \<Rightarrow>
          if p_status p \<noteq> needs_review
          then (\<lparr> alreadyProcessed = True, er_status = Some (status_string (p_status p)) \<rparr>, s)
          else (\<lparr> alreadyProcessed = False, er_status = None \<rparr>,
                patch_post postId
                  (\<lambda>q. q\<lparr> p_status := approved,
                          p_reviewedAt := Some now,
                          p_publishedAt := Some now,
                          p_updatedAt := now,
                          p_isHumanVerified := Some True \<rparr>) s))"

definition declineViaEmail :: "post_id \<Rightarrow> int \<Rightarrow> db \<Rightarrow> emailResult \<times> db" where
  "declineViaEmail postId now s =
     (case get_post s postId of
        None \<Rightarrow> (\<lparr> alreadyProcessed = True, er_status = Some ''not_found'' \<rparr>, s)
      | Some p \<Rightarrow>
          if p_status p \<noteq> needs_review
          then (\<lparr> alreadyProcessed = True, er_status = Some (status_string (p_status p)) \<rparr>, s)
          else (\<lparr> alreadyProcessed = False, er_status = None \<rparr>,
                patch_post postId
                  (\<lambda>q. q\<lparr> p_status := declined,
                          p_reviewedAt := Some now,
                          p_declineReason := Some ''Declined via email'',
                          p_updatedAt := now \<rparr>) s))"

definition autoPublish :: "post_id \<Rightarrow> int \<Rightarrow> db \<Rightarrow> db" where
  "autoPublish postId now s =
     (case get_post s postId of
        None \<Rightarrow> s
      | Some p \<Rightarrow>
          if p_status p \<noteq> needs_review then s
          else if p_isDeleted p then s
          else patch_post postId
                 (\<lambda>q. q\<lparr> p_status := auto_published,
                         p_publishedAt := Some now,
                         p_updatedAt := now,
                         p_isHumanVerified := Some False \<rparr>) s)"

section \<open>Deadline sweep (convex/scheduled/autoPublish.ts)\<close>

text \<open>One run of the sweep. \<open>now\<close> is the clock that the query reads and \<open>clock i\<close> the
  clock that the call of \<open>autoPublish\<close> for post \<open>i\<close> reads: the same instant where the
  platform freezes the time of a run, a later one otherwise.\<close>

definition processAutoPublish_step :: "(post_id \<Rightarrow> int) \<Rightarrow> pending \<Rightarrow> db \<Rightarrow> db" where
  "processAutoPublish_step clock pe s =
     schedule (sendAutoPublishedNotification (pe_id pe) (pe_userId pe))
       (autoPublish (pe_id pe) (clock (pe_id pe)) s)"

definition processAutoPublish :: "int \<Rightarrow> (post_id \<Rightarrow> int) \<Rightarrow> db \<Rightarrow> nat \<times> db" where
  "processAutoPublish now clock s =
     (let postsToPublish = getPendingAutoPublish now s
      in (length postsToPublish, fold (processAutoPublish_step clock) postsToPublish s))"

section \<open>Key validation and post creation over HTTP (convex/apiKeys.ts, convex/http.ts)\<close>

record auth =
  au_agentId :: "agent_id option"
  au_linkedUserId :: "user_id option"
  au_oversightLevel :: "oversight option"
  au_userId :: user_id
  au_apiKeyId :: apikey_id
  au_allowAutoPost :: bool

definition validateKey :: "db \<Rightarrow> string \<Rightarrow> auth option" where
  "validateKey s keyHash =
     (case find (\<lambda>k. k_keyHash k = keyHash) (apiKeys s) of
        None \<Rightarrow> None
      | Some key \<Rightarrow>
          if k_isRevoked key then None
          else
            let ag = (case k_agentId key of
                        Some a \<Rightarrow> get_agent s a
                      | None \<Rightarrow> None);
                linkedUserId = (case ag of Some a \<Rightarrow> a_linkedUserId a | None \<Rightarrow> None);
                oversightLevel = (case ag of Some a \<Rightarrow> a_oversightLevel a | None \<Rightarrow> None)
            in Some \<lparr> au_agentId = k_agentId key,
                      au_linkedUserId = linkedUserId,
                      au_oversightLevel = oversightLevel,
                      au_userId = k_userId key,
                      au_apiKeyId = k_id key,
                      au_allowAutoPost =
                        (case k_allowAutoPost key of Some b \<Rightarrow> b | None \<Rightarrow> False) \<rparr>)"

text \<open>The fields of a request body that passed the handler's validation (trimmed title and
  content, normalised tags, package, language and version).\<close>

record postFields =
  f_title :: string
  f_content :: string
  f_tags :: "string list"
  f_package :: string
  f_language :: string
  f_version :: "string option"

record response =
  rs_id :: post_id
  rs_status :: post_status
  rs_publishedAt :: "int option"
  rs_reviewDeadline :: "int option"
  rs_isHumanVerified :: "bool option"
  rs_message :: string

text \<open>The publication decision of the HTTP layer.\<close>

definition http_shouldAutoPublish :: "auth \<Rightarrow> bool" where
  "http_shouldAutoPublish a =
     (au_linkedUserId a = None \<or>
      au_oversightLevel a = Some ov_none \<or>
      au_oversightLevel a = Some ov_notify \<or>
      au_allowAutoPost a)"

text \<open>\<open>POST /api/v1/posts\<close> from the decision onwards; \<open>now\<close> is the clock of the
  mutation, \<open>tr\<close> that of the response.\<close>

definition http_createPost :: "auth \<Rightarrow> postFields \<Rightarrow> int \<Rightarrow> int \<Rightarrow> db \<Rightarrow> response \<times> db" where
  "http_createPost a f now tr s =
     (let shouldAutoPublish = http_shouldAutoPublish a;
          (postId, s1) = createInternal
             \<lparr> ca_apiKeyId = au_apiKeyId a,
               ca_agentId = au_agentId a,
               ca_userId = au_userId a,
               ca_title = f_title f,
               ca_content = f_content f,
               ca_tags = f_tags f,
               ca_package = f_package f,
               ca_language = f_language f,
               ca_version = f_version f,
               ca_oversightLevel = au_oversightLevel a,
               ca_autoPost = Some (au_allowAutoPost a) \<rparr> now s;
          s2 = (if shouldAutoPublish
                then (if au_oversightLevel a = Some ov_notify \<and> au_linkedUserId a \<noteq> None
                      then schedule (sendImmediateAutoPostNotification postId
                                       (the (au_linkedUserId a))) s1
                      else if au_oversightLevel a = None \<and> au_allowAutoPost a
                      then schedule (sendImmediateAutoPostNotification postId (au_userId a)) s1
                      else s1)
                else schedule (sendNewPostNotification postId
                                 (case au_linkedUserId a of Some u \<Rightarrow> u | None \<Rightarrow> au_userId a)) s1)
      in if shouldAutoPublish
         then (\<lparr> rs_id = postId, rs_status = auto_published, rs_publishedAt = Some tr,
                  rs_reviewDeadline = None, rs_isHumanVerified = Some False,
                  rs_message =
                    (if au_linkedUserId a \<noteq> None
                     then ''Post published immediately (oversight level allows auto-publish).''
                     else ''Post published immediately (agent is autonomous - no linked human).'') \<rparr>,
               s2)
         else (\<lparr> rs_id = postId, rs_status = needs_review, rs_publishedAt = None,
                  rs_reviewDeadline = Some (tr + SEVEN_DAYS_MS), rs_isHumanVerified = None,
                  rs_message = ''Post created! The linked human will be notified and can approve or decline via email.'' \<rparr>,
               s2))"

section \<open>Signup rate limiter (convex/agentSignup.ts)\<close>

definition windowMs :: int where
  "windowMs = 60 * 60 * 1000"

definition MAX_INIT_PER_HOUR :: nat where
  "MAX_INIT_PER_HOUR = 5"

record rateLimitResult =
  allowed :: bool
  retryAfter :: "int option"

text \<open>\<open>Math.ceil(x / 1000)\<close> on an integer \<open>x\<close>.\<close>

definition ceil_div_1000 :: "int \<Rightarrow> int" where
  "ceil_div_1000 x = - ((- x) div 1000)"

text \<open>\<open>Math.min(...xs)\<close>; it is called on five timestamps or more.\<close>

definition Math_min :: "int list \<Rightarrow> int" where
  "Math_min xs = (case xs of [] \<Rightarrow> 0 | x # r \<Rightarrow> fold min r x)"

definition checkInitRateLimit :: "string \<Rightarrow> int \<Rightarrow> db \<Rightarrow> rateLimitResult \<times> db" where
  "checkInitRateLimit fingerprint now s =
     (let maxRequests = MAX_INIT_PER_HOUR
      in case find (\<lambda>r. rl_fingerprint r = fingerprint) (agentSignupRateLimits s) of
           None \<Rightarrow>
             (\<lparr> allowed = True, retryAfter = None \<rparr>,
              s\<lparr>agentSignupRateLimits := agentSignupRateLimits s @
                   [\<lparr> rl_id = fresh_id (map rl_id (agentSignupRateLimits s)),
                      rl_fingerprint = fingerprint,
                      rl_timestamps = [now],
                      rl_lastUpdated = now \<rparr>]\<rparr>)
         | Some existing \<Rightarrow>
             let recentTimestamps = filter (\<lambda>ts. now - ts < windowMs) (rl_timestamps existing)
             in if length recentTimestamps \<ge> maxRequests
                then
                  let oldestTimestamp = Math_min recentTimestamps;
                      retryAfter = ceil_div_1000 (oldestTimestamp + windowMs - now)
                  in (\<lparr> allowed = False, retryAfter = Some retryAfter \<rparr>, s)
                else
                  (\<lparr> allowed = True, retryAfter = None \<rparr>,
                   s\<lparr>agentSignupRateLimits :=
                        map (\<lambda>r. if rl_id r = rl_id existing
                                  then r\<lparr> rl_timestamps := recentTimestamps @ [now],
                                          rl_lastUpdated := now \<rparr>
                                  else r)
                            (agentSignupRateLimits s)\<rparr>))"

text \<open>A run of requests from one fingerprint, one call per timestamp.\<close>

fun requests :: "string \<Rightarrow> int list \<Rightarrow> db \<Rightarrow> rateLimitResult list \<times> db" where
  "requests fp [] s = ([], s)"
| "requests fp (t # ts) s =
     (let (r, s1) = checkInitRateLimit fp t s;
          (rs, s2) = requests fp ts s1
      in (r # rs, s2))"

section \<open>Handle validation (convex/apiKeys.ts, convex/agents.ts, convex/agentSignup.ts)\<close>

definition is_lower :: "char \<Rightarrow> bool" where
  "is_lower c = (97 \<le> (of_char c :: nat) \<and> (of_char c :: nat) \<le> 122)"

definition is_digit :: "char \<Rightarrow> bool" where
  "is_digit c = (48 \<le> (of_char c :: nat) \<and> (of_char c :: nat) \<le> 57)"

text \<open>\<open>/^[a-z]/\<close>\<close>

definition re_starts_lower :: "string \<Rightarrow> bool" where
  "re_starts_lower h = (case h of [] \<Rightarrow> False | c # r \<Rightarrow> is_lower c)"

text \<open>\<open>/^[a-z][a-z0-9-]*[a-z0-9]$/\<close>: a letter, any run of letters, digits and hyphens, and
  a last letter or digit.\<close>

definition re_handle_long :: "string \<Rightarrow> bool" where
  "re_handle_long h =
     (case h of
        [] \<Rightarrow> False
      | c # r \<Rightarrow>
          is_lower c \<and> r \<noteq> [] \<and>
          list_all (\<lambda>x. is_lower x \<or> is_digit x \<or> x = CHR ''-'') (butlast r) \<and>
          (is_lower (last r) \<or> is_digit (last r)))"

text \<open>\<open>/^[a-z][a-z0-9-]*[a-z0-9]$|^[a-z]$/\<close>\<close>

definition re_handle :: "string \<Rightarrow> bool" where
  "re_handle h = (re_handle_long h \<or> (case h of [c] \<Rightarrow> is_lower c | _ \<Rightarrow> False))"

text \<open>\<open>/--/\<close>\<close>

fun re_double_hyphen :: "string \<Rightarrow> bool" where
  "re_double_hyphen (a # b # r) = ((a = CHR ''-'' \<and> b = CHR ''-'') \<or> re_double_hyphen (b # r))"
| "re_double_hyphen _ = False"

text \<open>\<open>String.prototype.trim\<close> on code units below 256: tab, line feed, vertical tab, form
  feed, carriage return, space and no-break space.\<close>

definition is_space :: "char \<Rightarrow> bool" where
  "is_space c = ((of_char c :: nat) \<in> {9, 10, 11, 12, 13, 32, 160})"

definition trim :: "string \<Rightarrow> string" where
  "trim h = rev (dropWhile is_space (rev (dropWhile is_space h)))"

text \<open>The format checks of the handle block of \<open>apiKeys.create\<close>, on the optional
  \<open>args.handle\<close>. An absent or empty handle is falsy: no check runs and the handle is
  generated (\<open>Inr None\<close>). Otherwise the result is the custom handle that passed, or the
  error thrown. The lookup for a taken handle comes after these checks.\<close>

definition create_validateHandle :: "string option \<Rightarrow> error + string option" where
  "create_validateHandle arg =
     (case arg of
        None \<Rightarrow> Inr None
      | Some h \<Rightarrow>
          if h = [] then Inr None
          else if \<not> re_handle h
          then Inl (ConvexError ''INVALID_HANDLE''
                 ''Handle must be lowercase, start with a letter, and contain only letters, numbers, and hyphens'')
          else if length h < 3 \<or> length h > 30
          then Inl (ConvexError ''INVALID_HANDLE'' ''Handle must be between 3 and 30 characters'')
          else Inr (Some h))"

text \<open>The format checks of the handle block of \<open>agents.update\<close>, on a handle that was
  passed: the result is the normalised new handle, or the error thrown. The lookup for a
  taken handle comes after these checks.\<close>

definition update_validateHandle :: "string \<Rightarrow> error + string" where
  "update_validateHandle h =
     (let newHandle = toLowerCase (trim h)
      in if length newHandle < 3 \<or> length newHandle > 30
         then Inl (ConvexError ''INVALID_HANDLE'' ''Handle must be between 3 and 30 characters'')
         else if \<not> re_handle_long newHandle \<and> length newHandle > 1
         then Inl (ConvexError ''INVALID_HANDLE''
                ''Handle must be lowercase, start with a letter, and contain only letters, numbers, and hyphens'')
         else if re_double_hyphen newHandle
         then Inl (ConvexError ''INVALID_HANDLE'' ''Handle cannot have consecutive hyphens'')
         else Inr newHandle)"

text \<open>\<open>validateHandle\<close> of the signup flow: an error message, or \<open>None\<close> for a valid handle.\<close>

definition HANDLE_MIN_LENGTH :: nat where
  "HANDLE_MIN_LENGTH = 3"

definition HANDLE_MAX_LENGTH :: nat where
  "HANDLE_MAX_LENGTH = 30"

definition validateHandle :: "string \<Rightarrow> string option" where
  "validateHandle h =
     (if length h < HANDLE_MIN_LENGTH then Some ''Handle must be at least 3 characters''
      else if length h > HANDLE_MAX_LENGTH then Some ''Handle must be at most 30 characters''
      else if \<not> re_starts_lower h then Some ''Handle must start with a lowercase letter''
      else if \<not> re_handle h
      then Some ''Handle must contain only lowercase letters, numbers, and hyphens''
      else if re_double_hyphen h then Some ''Handle cannot contain consecutive hyphens''
      else None)"

text \<open>The format rules in the words of the specification: length 3 to 30, a first character
  that is a letter, the pattern, and no two hyphens in a row.\<close>

definition spec_handle_format :: "string \<Rightarrow> bool" where
  "spec_handle_format h =
     (3 \<le> length h \<and> length h \<le> 30 \<and> re_starts_lower h \<and> re_handle h \<and>
      \<not> re_double_hyphen h)"

section \<open>Link tokens and the claim of an agent (convex/agentSignup.ts)\<close>

text \<open>\<open>a.charCodeAt(i)\<close>, and the comparison that folds the differences of all positions.\<close>

definition charCode :: "char \<Rightarrow> nat" where
  "charCode c = of_char c"

definition constantTimeEqual :: "string \<Rightarrow> string \<Rightarrow> bool" where
  "constantTimeEqual a b =
     (if length a \<noteq> length b then False
      else fold (\<lambda>(x, y) result. result OR (charCode x XOR charCode y)) (zip a b) 0 = 0)"

text \<open>\<open>s.split(":")\<close>\<close>

fun split_colon :: "string \<Rightarrow> string list" where
  "split_colon [] = [[]]"
| "split_colon (c # cs) =
     (if c = CHR '':'' then [] # split_colon cs
      else (case split_colon cs of
              [] \<Rightarrow> [[c]]
            | w # ws \<Rightarrow> (c # w) # ws))"

text \<open>\<open>token.replace(/-/g, "+").replace(/_/g, "/")\<close>\<close>

definition base64url_to_base64 :: "string \<Rightarrow> string" where
  "base64url_to_base64 t =
     map (\<lambda>c. if c = CHR ''_'' then CHR ''/'' else c)
       (map (\<lambda>c. if c = CHR ''-'' then CHR ''+'' else c) t)"

text \<open>\<open>parseInt(s, 10)\<close>: leading white space is skipped, a sign is read, and the longest run
  of decimal digits is the value; with no digit the result is \<open>NaN\<close> (\<open>None\<close>). The value is an
  unbounded integer here; for the comparison with \<open>Date.now()\<close> that is what the rounded
  number of the source gives.\<close>

definition digits_value :: "string \<Rightarrow> int" where
  "digits_value ds = fold (\<lambda>c n. 10 * n + (int (of_char c) - 48)) ds 0"

definition parseInt10 :: "string \<Rightarrow> int option" where
  "parseInt10 str =
     (let s1 = dropWhile is_space str;
          sign = (case s1 of c # r \<Rightarrow> if c = CHR ''-'' then (- 1 :: int) else 1 | [] \<Rightarrow> 1);
          s2 = (case s1 of
                  c # r \<Rightarrow> if c = CHR ''-'' \<or> c = CHR ''+'' then r else s1
                | [] \<Rightarrow> s1);
          ds = takeWhile is_digit s2
      in if ds = [] then None else Some (sign * digits_value ds))"

record verified =
  v_signupRequestId :: string
  v_expiry :: int
  v_isValid :: bool

text \<open>
  \<open>verifyClaimToken\<close>. The two primitives of the platform are parameters:
  \<open>atob\<close>, with \<open>None\<close> where it throws on input that is not base64, and \<open>hmac\<close>, the
  hexadecimal HMAC-SHA256 of the data under the secret, with \<open>None\<close> where the Web Crypto
  call throws. Every exception is caught and gives \<open>null\<close> (\<open>None\<close>).
\<close>

definition verifyClaimToken ::
  "(string \<Rightarrow> string option) \<Rightarrow> (string \<Rightarrow> string \<Rightarrow> string option) \<Rightarrow>
   string \<Rightarrow> string \<Rightarrow> verified option" where
  "verifyClaimToken atob hmac token secret =
     (let base64 = base64url_to_base64 token
      in case atob base64 of
           None \<Rightarrow> None
         | Some decoded \<Rightarrow>
             (case split_colon decoded of
                [signupRequestId, expiryStr, providedSig] \<Rightarrow>
                  (case parseInt10 expiryStr of
                     None \<Rightarrow> None
                   | Some expiry \<Rightarrow>
                       let data = signupRequestId @ '':'' @ expiryStr
                       in (case hmac secret data of
                             None \<Rightarrow> None
                           | Some expectedSig \<Rightarrow>
                               Some \<lparr> v_signupRequestId = signupRequestId,
                                      v_expiry = expiry,
                                      v_isValid = constantTimeEqual providedSig expectedSig \<rparr>))
              | _ \<Rightarrow> None))"

text \<open>\<open>linkAgentToHuman\<close>: a patch of the agent; patching a missing document throws.\<close>

definition linkAgentToHuman ::
  "agent_id \<Rightarrow> user_id \<Rightarrow> oversight \<Rightarrow> int \<Rightarrow> db \<Rightarrow> error + db" where
  "linkAgentToHuman agentId humanUserId oversightLevel now s =
     (case get_agent s agentId of
        None \<Rightarrow> Inl (SystemError ''patch of a missing document'')
      | Some a \<Rightarrow>
          Inr (patch_agent agentId
                 (\<lambda>x. x\<lparr> a_linkedUserId := Some humanUserId,
                         a_linkedAt := Some now,
                         a_oversightLevel := Some oversightLevel,
                         a_updatedAt := now \<rparr>) s))"

text \<open>\<open>performClaimMigration\<close>: a key with an agent is linked; a legacy key is moved, with the
  posts, comments and likes of the agent's user, and that user is archived.\<close>

definition performClaimMigration ::
  "user_id \<Rightarrow> user_id \<Rightarrow> apikey_id \<Rightarrow> int \<Rightarrow> db \<Rightarrow> error + db" where
  "performClaimMigration agentUserId humanUserId apiKeyId now s =
     (case get_apiKey s apiKeyId of
        None \<Rightarrow> Inl (SystemError ''patch of a missing document'')
      | Some key \<Rightarrow>
          (case k_agentId key of
             Some agentId \<Rightarrow> linkAgentToHuman agentId humanUserId ov_review now s
           | None \<Rightarrow>
               let s1 = patch_apiKey apiKeyId (\<lambda>k. k\<lparr> k_userId := humanUserId \<rparr>) s;
                   s2 = s1\<lparr>posts := map (\<lambda>p. if p_userId p = agentUserId
                                              then p\<lparr> p_userId := humanUserId,
                                                      p_originalAgentUserId := Some agentUserId \<rparr>
                                              else p) (posts s1)\<rparr>;
                   s3 = s2\<lparr>comments := map (\<lambda>c. if c_userId c = agentUserId
                                                 then c\<lparr> c_userId := humanUserId \<rparr>
                                                 else c) (comments s2)\<rparr>;
                   s4 = s3\<lparr>commentLikes := map (\<lambda>l. if l_userId l = agentUserId
                                                     then l\<lparr> l_userId := humanUserId \<rparr>
                                                     else l) (commentLikes s3)\<rparr>
               in (case get_user s4 agentUserId of
                     None \<Rightarrow> Inl (SystemError ''patch of a missing document'')
                   | Some u \<Rightarrow>
                       Inr (patch_user agentUserId
                              (\<lambda>x. x\<lparr> u_absorbedInto := Some humanUserId,
                                      u_claimedAt := Some now,
                                      u_updatedAt := Some now \<rparr>) s4))))"

record claimResult =
  success :: bool
  cr_error :: "string option"

definition reject :: "string \<Rightarrow> claimResult" where
  "reject reason = \<lparr> success = False, cr_error = Some reason \<rparr>"

text \<open>\<open>process.env.EMAIL_ACTION_SECRET || "dev-secret-change-in-prod"\<close>\<close>

definition action_secret :: "string option \<Rightarrow> string" where
  "action_secret env =
     (case env of
        None \<Rightarrow> ''dev-secret-change-in-prod''
      | Some e \<Rightarrow> if e = [] then ''dev-secret-change-in-prod'' else e)"

text \<open>
  \<open>claimAgentPublic\<close>. \<open>caller\<close> is the result of \<open>getAuthUserId\<close>, \<open>env\<close> the environment
  variable of the secret, and \<open>decodeId\<close> reads the request identifier out of the token
  (\<open>None\<close> where \<open>ctx.db.get\<close> throws on a string that is no identifier). A thrown error
  rolls the mutation back.
\<close>

definition claimAgentPublic ::
  "(string \<Rightarrow> string option) \<Rightarrow> (string \<Rightarrow> string \<Rightarrow> string option) \<Rightarrow>
   (string \<Rightarrow> request_id option) \<Rightarrow> string option \<Rightarrow>
   user_id option \<Rightarrow> string \<Rightarrow> int \<Rightarrow> db \<Rightarrow> (error + claimResult) \<times> db" where
  "claimAgentPublic atob hmac decodeId env caller token now s =
     (case caller of
        None \<Rightarrow> (Inr (reject ''not_authenticated''), s)
      | Some userId \<Rightarrow>
          (case get_user s userId of
             None \<Rightarrow> (Inr (reject ''user_not_found''), s)
           | Some user \<Rightarrow>
               if u_isAgentCreated user = Some True then (Inr (reject ''agent_cannot_claim''), s)
               else
                 (case verifyClaimToken atob hmac token (action_secret env) of
                    None \<Rightarrow> (Inr (reject ''invalid_token''), s)
                  | Some v \<Rightarrow>
                      if \<not> v_isValid v then (Inr (reject ''invalid_token''), s)
                      else if now > v_expiry v then (Inr (reject ''expired''), s)
                      else
                        (case decodeId (v_signupRequestId v) of
                           None \<Rightarrow> (Inl (SystemError ''invalid document identifier''), s)
                         | Some requestId \<Rightarrow>
                             (case get_request s requestId of
                                None \<Rightarrow> (Inr (reject ''invalid_token''), s)
                              | Some request \<Rightarrow>
                                  (case (r_userId request, r_apiKeyId request) of
                                     (Some agentUserId, Some apiKeyId) \<Rightarrow>
                                       (case get_user s agentUserId of
                                          None \<Rightarrow> (Inr (reject ''invalid_token''), s)
                                        | Some agentUser \<Rightarrow>
                                            if u_absorbedInto agentUser \<noteq> None
                                            then (Inr (reject ''already_claimed''), s)
                                            else
                                              (case performClaimMigration agentUserId
                                                      (u_id user) apiKeyId now s of
                                                 Inl e \<Rightarrow> (Inl e, s)
                                               | Inr s' \<Rightarrow>
                                                   (Inr \<lparr> success = True, cr_error = None \<rparr>,
                                                    s')))
                                   | _ \<Rightarrow> (Inr (reject ''invalid_token''), s)))))))"

section \<open>Notions of the statements\<close>

text \<open>Who a caller is for the ownership checks: an administrator, or the human linked to
  the agent of the post.\<close>

definition is_admin :: "db \<Rightarrow> user_id \<Rightarrow> bool" where
  "is_admin s u = (case get_user s u of Some x \<Rightarrow> checkIsAdmin x | None \<Rightarrow> False)"

definition linked_human :: "db \<Rightarrow> post \<Rightarrow> user_id \<Rightarrow> bool" where
  "linked_human s p u =
     (case p_agentId p of
        None \<Rightarrow> False
      | Some ai \<Rightarrow>
          (case get_agent s ai of None \<Rightarrow> False | Some a \<Rightarrow> a_linkedUserId a = Some u))"

text \<open>The sweep in the words of the specification: a post is eligible when it is in review,
  not deleted and past its deadline; a published post carries the new status, the time and
  the flag; the batch of a run is the first hundred eligible posts in the order of their
  deadlines.\<close>

definition eligible :: "int \<Rightarrow> post \<Rightarrow> bool" where
  "eligible now p = (p_status p = needs_review \<and> \<not> p_isDeleted p \<and> p_reviewDeadline p < now)"

definition published :: "int \<Rightarrow> post \<Rightarrow> post" where
  "published now p = p\<lparr> p_status := auto_published, p_publishedAt := Some now,
                        p_updatedAt := now, p_isHumanVerified := Some False \<rparr>"

definition batch :: "int \<Rightarrow> db \<Rightarrow> post list" where
  "batch now s = take 100 (filter (eligible now) (sort_key p_reviewDeadline (posts s)))"

text \<open>The effect of \<open>autoPublish\<close> for a set of identifiers on one post.\<close>

definition publish_ids :: "(post_id \<Rightarrow> int) \<Rightarrow> post_id set \<Rightarrow> post \<Rightarrow> post" where
  "publish_ids clock I p =
     (if p_id p \<in> I \<and> p_status p = needs_review \<and> \<not> p_isDeleted p
      then published (clock (p_id p)) p else p)"

text \<open>The record of a fingerprint, as \<open>checkInitRateLimit\<close> looks it up.\<close>

definition rl_lookup :: "db \<Rightarrow> string \<Rightarrow> rateLimit option" where
  "rl_lookup s fp = find (\<lambda>r. rl_fingerprint r = fp) (agentSignupRateLimits s)"

section \<open>Example states\<close>

definition empty_db :: db where
  "empty_db = \<lparr> posts = [], agents = [], users = [], apiKeys = [], comments = [],
                commentLikes = [], agentSignupRequests = [], agentSignupRateLimits = [],
                scheduled = [] \<rparr>"

text \<open>The state a self-registration leaves (\<open>createAgentUserAndKey\<close>): an agent with no linked
  human and no oversight level, its placeholder user, and a key with \<open>allowAutoPost = false\<close>.\<close>

definition signup_db :: db where
  "signup_db = empty_db
     \<lparr> agents := [\<lparr> a_id = 1, a_handle = ''molty'', a_createdByUserId = None,
                    a_linkedUserId = None, a_linkedAt = None, a_oversightLevel = None,
                    a_createdAt = 0, a_updatedAt = 0 \<rparr>],
       users := [\<lparr> u_id = 1, u_email = None, u_githubUsername = None,
                   u_isAgentCreated = Some True, u_absorbedInto = None, u_claimedAt = None,
                   u_updatedAt = Some 0 \<rparr>],
       apiKeys := [\<lparr> k_id = 1, k_agentId = Some 1, k_userId = 1, k_keyHash = ''hash-1'',
                     k_isRevoked = False, k_allowAutoPost = Some False \<rparr>] \<rparr>"

definition signup_auth :: auth where
  "signup_auth = \<lparr> au_agentId = Some 1, au_linkedUserId = None, au_oversightLevel = None,
                   au_userId = 1, au_apiKeyId = 1, au_allowAutoPost = False \<rparr>"

definition example_fields :: postFields where
  "example_fields = \<lparr> f_title = ''Tip'', f_content = ''Body'', f_tags = [],
                      f_package = ''react'', f_language = ''typescript'', f_version = None \<rparr>"

text \<open>A post in review written by agent 1 under the placeholder user 1.\<close>

definition example_post :: post where
  "example_post =
     \<lparr> p_id = 1, p_apiKeyId = 1, p_agentId = Some 1, p_userId = 1,
       p_title = ''Tip'', p_content = ''Body'', p_tags = [], p_package = ''react'',
       p_language = ''typescript'', p_version = None, p_status = needs_review,
       p_reviewDeadline = 604800000, p_reviewedAt = None, p_reviewedBy = None,
       p_declineReason = None, p_createdAt = 0, p_updatedAt = 0, p_publishedAt = None,
       p_isDeleted = False, p_isHumanVerified = None, p_originalAgentUserId = None,
       p_searchText = ''tip body react typescript'' \<rparr>"

text \<open>The same agent after the human 2 linked to it with oversight level \<open>review\<close>, with the
  post in review; user 3 is an administrator.\<close>

definition review_db :: db where
  "review_db = empty_db
     \<lparr> agents := [\<lparr> a_id = 1, a_handle = ''molty'', a_createdByUserId = None,
                    a_linkedUserId = Some 2, a_linkedAt = Some 10,
                    a_oversightLevel = Some ov_review, a_createdAt = 0, a_updatedAt = 10 \<rparr>],
       users := [\<lparr> u_id = 1, u_email = None, u_githubUsername = None,
                   u_isAgentCreated = Some True, u_absorbedInto = None, u_claimedAt = None,
                   u_updatedAt = Some 0 \<rparr>,
                 \<lparr> u_id = 2, u_email = Some ''human@example.com'',
                   u_githubUsername = Some ''human'', u_isAgentCreated = None,
                   u_absorbedInto = None, u_claimedAt = None, u_updatedAt = Some 0 \<rparr>,
                 \<lparr> u_id = 3, u_email = None, u_githubUsername = Some ''v-raja'',
                   u_isAgentCreated = None, u_absorbedInto = None, u_claimedAt = None,
                   u_updatedAt = Some 0 \<rparr>],
       apiKeys := [\<lparr> k_id = 1, k_agentId = Some 1, k_userId = 1, k_keyHash = ''hash-1'',
                     k_isRevoked = False, k_allowAutoPost = Some False \<rparr>],
       posts := [example_post] \<rparr>"

text \<open>The review of the post by the linked human 2 at time 50: approved, or declined.\<close>

definition approve_args :: approveArgs where
  "approve_args = \<lparr> ap_postId = 1, ap_title = None, ap_content = None, ap_agentId = None \<rparr>"

definition approved_db :: db where
  "approved_db = review_db
     \<lparr> posts := [example_post \<lparr> p_status := approved, p_reviewedAt := Some 50,
                                p_reviewedBy := Some 2, p_publishedAt := Some 50,
                                p_updatedAt := 50, p_isHumanVerified := Some True \<rparr>] \<rparr>"

definition declined_db :: db where
  "declined_db = review_db
     \<lparr> posts := [example_post \<lparr> p_status := declined, p_reviewedAt := Some 50,
                                p_reviewedBy := Some 2, p_declineReason := Some ''off topic'',
                                p_updatedAt := 50 \<rparr>] \<rparr>"

text \<open>The post soft-deleted while still in review.\<close>

definition deleted_db :: db where
  "deleted_db = review_db \<lparr> posts := [example_post \<lparr> p_isDeleted := True \<rparr>] \<rparr>"

text \<open>A table of 101 posts in review, all past their deadline at time 1000.\<close>

definition crowded_db :: db where
  "crowded_db = review_db
     \<lparr> posts := map (\<lambda>i. example_post \<lparr> p_id := i, p_reviewDeadline := 500 \<rparr>) [1 ..< 102] \<rparr>"

text \<open>The clock of a run that reads one instant throughout.\<close>

definition frozen :: "int \<Rightarrow> post_id \<Rightarrow> int" where
  "frozen t i = t"

text \<open>
  The two primitives in the examples. The decoder is the forgiving base64 decoding of
  \<open>atob\<close>: white space is dropped, one or two padding signs are taken off a length that is
  a multiple of four, a length of one modulo four or a foreign character makes it fail, and
  every four sextets give three bytes. The digest is a stand-in for HMAC-SHA256: the sum of
  the codes of the secret and the data, as four hexadecimal digits. The identifier of a
  request is its decimal numeral.
\<close>

definition b64_index :: "char \<Rightarrow> nat option" where
  "b64_index c =
     (let n = (of_char c :: nat)
      in if 65 \<le> n \<and> n \<le> 90 then Some (n - 65)
         else if 97 \<le> n \<and> n \<le> 122 then Some (n - 71)
         else if 48 \<le> n \<and> n \<le> 57 then Some (n + 4)
         else if c = CHR ''+'' then Some 62
         else if c = CHR ''/'' then Some 63
         else None)"

fun b64_bytes :: "nat list \<Rightarrow> string" where
  "b64_bytes (a # b # c # d # r) =
     char_of (a * 4 + b div 16) # char_of ((b mod 16) * 16 + c div 4) #
     char_of ((c mod 4) * 64 + d) # b64_bytes r"
| "b64_bytes [a, b, c] = [char_of (a * 4 + b div 16), char_of ((b mod 16) * 16 + c div 4)]"
| "b64_bytes [a, b] = [char_of (a * 4 + b div 16)]"
| "b64_bytes _ = []"

definition strip_padding :: "string \<Rightarrow> string" where
  "strip_padding t =
     (if length t mod 4 = 0
      then (case rev t of
              a # b # r \<Rightarrow>
                if a = CHR ''='' \<and> b = CHR ''='' then rev r
                else if a = CHR ''='' then rev (b # r)
                else t
            | _ \<Rightarrow> t)
      else t)"

definition example_atob :: "string \<Rightarrow> string option" where
  "example_atob t =
     (let t1 = filter (\<lambda>c. (of_char c :: nat) \<notin> {9, 10, 12, 13, 32}) t;
          t2 = strip_padding t1
      in if length t2 mod 4 = 1 then None
         else (case those (map b64_index t2) of
                 None \<Rightarrow> None
               | Some vs \<Rightarrow> Some (b64_bytes vs)))"

definition hex_digit :: "nat \<Rightarrow> char" where
  "hex_digit n = (if n < 10 then char_of (48 + n) else char_of (87 + n))"

definition example_hmac :: "string \<Rightarrow> string \<Rightarrow> string option" where
  "example_hmac secret data =
     (let n = sum_list (map of_char (secret @ data)) mod 65536
      in Some [hex_digit (n div 4096), hex_digit (n div 256 mod 16),
               hex_digit (n div 16 mod 16), hex_digit (n mod 16)])"

definition example_decodeId :: "string \<Rightarrow> request_id option" where
  "example_decodeId t =
     (if t \<noteq> [] \<and> list_all is_digit t then Some (nat (digits_value t)) else None)"

text \<open>The link token of the signup request 7 with expiry 1000, that is the base64url text of
  \<open>7:1000:0a9d\<close>, signed under the development secret; the same token with one bit of the
  last character of its signature flipped (\<open>7:1000:0a9e\<close>); and the state with the verified
  request 7 of the agent.\<close>

definition example_token :: string where
  "example_token = ''NzoxMDAwOjBhOWQ''"

definition forged_token :: string where
  "forged_token = ''NzoxMDAwOjBhOWU''"


definition claim_db :: db where
  "claim_db = review_db
     \<lparr> agentSignupRequests := [\<lparr> r_id = 7, r_userId = Some 1, r_apiKeyId = Some 1 \<rparr>] \<rparr>"

section \<open>Properties\<close>

subsection \<open>Lookups and patches\<close>

lemma fold_max_ge: "(m::nat) \<le> fold max is m"
  by (induction "is" arbitrary: m) (auto intro: order_trans[OF max.cobounded2])

lemma fold_max_mem: "i \<in> set is \<Longrightarrow> (i::nat) \<le> fold max is m"
proof (induction "is" arbitrary: m)
  case Nil
  then show ?case by simp
next
  case (Cons a "is")
  then show ?case
    using fold_max_ge[of "max a m" "is"] by auto
qed

lemma fresh_id_not_mem: "fresh_id is \<notin> set is"
  using fold_max_mem[of "fresh_id is" "is" 0] by (auto simp: fresh_id_def)

lemma find_append_fresh:
  "\<forall>x\<in>set xs. \<not> P x \<Longrightarrow> P y \<Longrightarrow> find P (xs @ [y]) = Some y"
  by (induction xs) auto

lemma get_post_insert:
  "p_id d \<notin> set (map p_id (posts s)) \<Longrightarrow>
   get_post (s\<lparr>posts := posts s @ [d]\<rparr>) (p_id d) = Some d"
  unfolding get_post_def by (simp, intro find_append_fresh) (force simp: image_iff)+

lemma find_map_id:
  assumes "\<And>p. p_id (g p) = p_id p"
  shows "find (\<lambda>p. p_id p = j) (map g ps) = map_option g (find (\<lambda>p. p_id p = j) ps)"
  by (induction ps) (auto simp: assms)

lemma find_Some_id: "find (\<lambda>p. p_id p = j) ps = Some p \<Longrightarrow> p_id p = j"
  by (induction ps) (auto split: if_splits)

lemma get_post_id: "get_post s j = Some p \<Longrightarrow> p_id p = j"
  unfolding get_post_def by (rule find_Some_id)

lemma get_post_mem: "get_post s j = Some p \<Longrightarrow> p \<in> set (posts s)"
  unfolding get_post_def by (auto simp: find_Some_iff)

lemma get_post_patch:
  assumes "\<And>p. p_id (f p) = p_id p"
  shows "get_post (patch_post i f s) j =
         (if j = i then map_option f (get_post s j) else get_post s j)"
proof -
  let ?g = "\<lambda>p. if p_id p = i then f p else p"
  have g: "\<And>p. p_id (?g p) = p_id p" by (simp add: assms)
  have "get_post (patch_post i f s) j = map_option ?g (get_post s j)"
    unfolding get_post_def patch_post_def using find_map_id[of ?g j "posts s"] g by simp
  then show ?thesis
    by (cases "get_post s j") (auto dest: get_post_id)
qed

lemma patch_post_other [simp]:
  "agents (patch_post i f s) = agents s" "users (patch_post i f s) = users s"
  "scheduled (patch_post i f s) = scheduled s"
  by (simp_all add: patch_post_def)

lemma get_agent_patch_post [simp]: "get_agent (patch_post i f s) = get_agent s"
  by (rule ext) (simp add: get_agent_def)

lemma get_user_patch_post [simp]: "get_user (patch_post i f s) = get_user s"
  by (rule ext) (simp add: get_user_def)

lemma is_admin_patch_post: "is_admin (patch_post i f s) u = is_admin s u"
  by (simp add: is_admin_def)

lemma linked_human_patch_post: "linked_human (patch_post i f s) p u = linked_human s p u"
  by (simp add: linked_human_def split: option.splits)

lemma linked_human_agentId:
  "p_agentId q = p_agentId p \<Longrightarrow> linked_human s q u = linked_human s p u"
  by (simp add: linked_human_def)

lemmas example_defs =
  signup_db_def signup_auth_def example_fields_def example_post_def review_db_def empty_db_def

subsection \<open>The publication decision\<close>

lemma createInternal_stored:
  assumes "createInternal args now s = (i, s')"
  shows "\<exists>p. get_post s' i = Some p \<and>
       p_status p =
         (if createInternal_shouldAutoPublish args then auto_published else needs_review) \<and>
       p_publishedAt p = (if createInternal_shouldAutoPublish args then Some now else None) \<and>
       p_isHumanVerified p =
         (if createInternal_shouldAutoPublish args then Some False else None) \<and>
       p_reviewDeadline p = now + SEVEN_DAYS_MS \<and> p_createdAt p = now \<and> \<not> p_isDeleted p"
proof -
  from assms obtain d where d: "s' = s\<lparr>posts := posts s @ [d]\<rparr>" "p_id d = i"
    "i = fresh_id (map p_id (posts s))"
    "p_status d =
       (if createInternal_shouldAutoPublish args then auto_published else needs_review)"
    "p_publishedAt d = (if createInternal_shouldAutoPublish args then Some now else None)"
    "p_isHumanVerified d =
       (if createInternal_shouldAutoPublish args then Some False else None)"
    "p_reviewDeadline d = now + SEVEN_DAYS_MS" "p_createdAt d = now" "\<not> p_isDeleted d"
    unfolding createInternal_def Let_def by fastforce
  have "p_id d \<notin> set (map p_id (posts s))"
    using fresh_id_not_mem[of "map p_id (posts s)"] d(2,3) by simp
  then have "get_post s' i = Some d"
    using get_post_insert[of d s] d(1,2) by simp
  with d show ?thesis by blast
qed

text \<open>The arguments the HTTP layer passes to \<open>createInternal\<close> carry the oversight level and
  the legacy flag, and not the link: the two decisions differ exactly for an unlinked agent
  whose level is unset or \<open>review\<close> (with the flag off), and for a level \<open>review\<close> with the
  flag on.\<close>

lemma decisions_differ_iff:
  "(http_shouldAutoPublish a \<noteq>
    createInternal_shouldAutoPublish
      \<lparr> ca_apiKeyId = k, ca_agentId = g, ca_userId = u, ca_title = t, ca_content = c,
        ca_tags = ts, ca_package = pk, ca_language = l, ca_version = v,
        ca_oversightLevel = au_oversightLevel a, ca_autoPost = Some (au_allowAutoPost a) \<rparr>) =
   ((au_oversightLevel a = None \<and> au_linkedUserId a = None \<and> \<not> au_allowAutoPost a) \<or>
    (au_oversightLevel a = Some ov_review \<and> (au_linkedUserId a = None \<or> au_allowAutoPost a)))"
  by (cases "au_oversightLevel a"; cases "the (au_oversightLevel a)")
     (auto simp: http_shouldAutoPublish_def createInternal_shouldAutoPublish_def)

lemma http_createPost_response_status:
  "rs_status (fst (http_createPost a f now tr s)) =
   (if http_shouldAutoPublish a then auto_published else needs_review)"
  by (simp add: http_createPost_def Let_def split: prod.splits)

text \<open>
  Claim C1. The status the HTTP layer reports should be the status \<open>createInternal\<close> stores.
  It is not for the key of a self-registered agent (no linked human, no oversight level,
  \<open>allowAutoPost = false\<close>): the response says \<open>auto_published\<close> and the stored post is in
  \<open>needs_review\<close>.
\<close>

theorem http_status_differs_from_stored_status:
  "validateKey signup_db ''hash-1'' = Some signup_auth \<and>
   (case http_createPost signup_auth example_fields 1000 1001 signup_db of
      (r, s') \<Rightarrow> rs_status r = auto_published \<and>
                 map_option p_status (get_post s' (rs_id r)) = Some needs_review)"
  by (simp add: example_defs validateKey_def get_agent_def http_createPost_def
      http_shouldAutoPublish_def createInternal_def createInternal_shouldAutoPublish_def
      fresh_id_def get_post_def schedule_def Let_def)

text \<open>
  Claim C2. A post of an agent with no linked human should be stored as \<open>auto_published\<close>.
  For the self-registered agent above, with no oversight level set, the post is stored in
  \<open>needs_review\<close>, with no \<open>publishedAt\<close> and no \<open>isHumanVerified\<close>.
\<close>

theorem unlinked_agent_post_stored_for_review:
  "au_linkedUserId signup_auth = None \<and> au_oversightLevel signup_auth = None \<and>
   (case http_createPost signup_auth example_fields 1000 1001 signup_db of
      (r, s') \<Rightarrow> map_option (\<lambda>p. (p_status p, p_publishedAt p, p_isHumanVerified p))
                   (get_post s' (rs_id r)) = Some (needs_review, None, None))"
  by (simp add: example_defs http_createPost_def http_shouldAutoPublish_def
      createInternal_def createInternal_shouldAutoPublish_def fresh_id_def get_post_def
      schedule_def Let_def)

text \<open>What is stored in general: \<open>auto_published\<close> exactly for the levels \<open>none\<close> and
  \<open>notify\<close>, and for an unset level with the legacy flag on.\<close>

lemma http_createPost_stored_status:
  assumes "http_createPost a f now tr s = (r, s')"
  shows "\<exists>p. get_post s' (rs_id r) = Some p \<and>
           (p_status p = auto_published) =
             (au_oversightLevel a = Some ov_none \<or> au_oversightLevel a = Some ov_notify \<or>
              (au_oversightLevel a = None \<and> au_allowAutoPost a)) \<and>
           (p_status p = auto_published \<or> p_status p = needs_review)"
proof -
  let ?args = "\<lparr> ca_apiKeyId = au_apiKeyId a, ca_agentId = au_agentId a,
      ca_userId = au_userId a, ca_title = f_title f, ca_content = f_content f,
      ca_tags = f_tags f, ca_package = f_package f, ca_language = f_language f,
      ca_version = f_version f, ca_oversightLevel = au_oversightLevel a,
      ca_autoPost = Some (au_allowAutoPost a) \<rparr>"
  obtain i s1 where c: "createInternal ?args now s = (i, s1)" by force
  from createInternal_stored[OF c] obtain p where p: "get_post s1 i = Some p"
    "p_status p =
       (if createInternal_shouldAutoPublish ?args then auto_published else needs_review)"
    by blast
  have r: "rs_id r = i" and "posts s' = posts s1"
    using assms c by (auto simp: http_createPost_def Let_def schedule_def split: if_splits)
  then have "get_post s' (rs_id r) = Some p"
    using p(1) by (simp add: get_post_def)
  moreover have "createInternal_shouldAutoPublish ?args =
      (au_oversightLevel a = Some ov_none \<or> au_oversightLevel a = Some ov_notify \<or>
       (au_oversightLevel a = None \<and> au_allowAutoPost a))"
    by (auto simp: createInternal_shouldAutoPublish_def split: option.splits)
  ultimately show ?thesis using p(2) by auto
qed

subsection \<open>Review actions\<close>

lemma approve_hasPermission_iff:
  "approve_hasPermission s u p = (is_admin s u \<or> linked_human s p u \<or> p_userId p = u)"
  by (auto simp: approve_hasPermission_def is_admin_def linked_human_def Let_def
           split: option.splits)

lemma decline_hasPermission_iff:
  "decline_hasPermission s u p = (linked_human s p u \<or> p_userId p = u)"
  by (auto simp: decline_hasPermission_def linked_human_def Let_def split: option.splits)

lemma approve_twice:
  assumes "approve c a now s = (Inr (), s')"
  shows "approve c a now' s' = (Inr (), s')"
proof -
  from assms obtain u p where c: "c = Some u" and p: "get_post s (ap_postId a) = Some p"
    and perm: "approve_hasPermission s u p"
    by (auto simp: approve_def Let_def split: option.splits if_splits)
  show ?thesis
  proof (cases "p_status p = needs_review")
    case False
    with assms c p perm have "s' = s" by (auto simp: approve_def Let_def)
    with assms c p perm False show ?thesis by (auto simp: approve_def Let_def)
  next
    case True
    from assms c p perm True obtain f where
      s': "s' = patch_post (ap_postId a) f s" and
      f: "\<And>q. p_id (f q) = p_id q" "\<And>q. p_status (f q) = approved"
         "\<And>q. p_userId (f q) = p_userId q"
         "\<And>q. p_agentId (f q) =
              (case ap_agentId a of Some x \<Rightarrow> Some x | None \<Rightarrow> p_agentId q)"
      and adm: "ap_agentId a \<noteq> None \<Longrightarrow> is_admin s u"
      by (auto simp: approve_def is_admin_def Let_def split: if_splits)
    have gp: "get_post s' (ap_postId a) = Some (f p)"
      using get_post_patch[of f "ap_postId a" s "ap_postId a"] f(1) p s' by simp
    have "approve_hasPermission s' u (f p)"
    proof (cases "ap_agentId a")
      case None
      with perm f show ?thesis
        using linked_human_agentId[of "f p" p s u]
        by (simp add: approve_hasPermission_iff is_admin_patch_post linked_human_patch_post s')
    next
      case (Some x)
      with adm show ?thesis
        by (simp add: approve_hasPermission_iff is_admin_patch_post s')
    qed
    with gp c f(2) show ?thesis by (simp add: approve_def Let_def)
  qed
qed

lemma decline_twice:
  assumes "decline c i r now s = (Inr (), s')"
  shows "decline c i r' now' s' = (Inr (), s')"
proof -
  from assms obtain u p where c: "c = Some u" and p: "get_post s i = Some p"
    and perm: "decline_hasPermission s u p"
    by (auto simp: decline_def Let_def split: option.splits if_splits)
  show ?thesis
  proof (cases "p_status p = needs_review")
    case False
    with assms c p perm have "s' = s" by (auto simp: decline_def Let_def)
    with assms c p perm False show ?thesis by (auto simp: decline_def Let_def)
  next
    case True
    from assms c p perm True obtain f where
      s': "s' = patch_post i f s" and
      f: "\<And>q. p_id (f q) = p_id q" "\<And>q. p_status (f q) = declined"
         "\<And>q. p_userId (f q) = p_userId q" "\<And>q. p_agentId (f q) = p_agentId q"
      by (auto simp: decline_def Let_def split: if_splits)
    have gp: "get_post s' i = Some (f p)"
      using get_post_patch[of f i s i] f(1) p s' by simp
    have "decline_hasPermission s' u (f p)"
      using perm f linked_human_agentId[of "f p" p s u]
      by (simp add: decline_hasPermission_iff linked_human_patch_post s')
    with gp c f(2) show ?thesis by (simp add: decline_def Let_def)
  qed
qed

lemma approve_error_unchanged: "approve c a now s = (Inl e, s') \<Longrightarrow> s' = s"
  by (auto simp: approve_def Let_def split: option.splits if_splits)

lemma decline_error_unchanged: "decline c i r now s = (Inl e, s') \<Longrightarrow> s' = s"
  by (auto simp: decline_def Let_def split: option.splits if_splits)

lemma approve_state_idempotent:
  "snd (approve c a now' (snd (approve c a now s))) = snd (approve c a now s)"
proof (cases "approve c a now s")
  case (Pair r s')
  show ?thesis
  proof (cases r)
    case (Inl e)
    with Pair have "s' = s" by (auto dest: approve_error_unchanged)
    moreover obtain r2 s2 where r2: "approve c a now' s = (r2, s2)" by force
    moreover have "s2 = s"
    proof (cases r2)
      case (Inl e2)
      with r2 show ?thesis by (auto dest: approve_error_unchanged)
    next
      case (Inr x)
      with r2 Pair Inl show ?thesis
        by (auto simp: approve_def Let_def split: option.splits if_splits)
    qed
    ultimately show ?thesis using Pair by simp
  next
    case (Inr x)
    with Pair approve_twice[of c a now s s' now'] show ?thesis by simp
  qed
qed

lemma decline_state_idempotent:
  "snd (decline c i r now' (snd (decline c i r now s))) = snd (decline c i r now s)"
proof (cases "decline c i r now s")
  case (Pair x s')
  show ?thesis
  proof (cases x)
    case (Inl e)
    with Pair have "s' = s" by (auto dest: decline_error_unchanged)
    moreover obtain r2 s2 where r2: "decline c i r now' s = (r2, s2)" by force
    moreover have "s2 = s"
    proof (cases r2)
      case (Inl e2)
      with r2 show ?thesis by (auto dest: decline_error_unchanged)
    next
      case (Inr y)
      with r2 Pair Inl show ?thesis
        by (auto simp: decline_def Let_def split: option.splits if_splits)
    qed
    ultimately show ?thesis using Pair by simp
  next
    case (Inr y)
    with Pair decline_twice[of c i r now s s' r now'] show ?thesis by simp
  qed
qed

text \<open>
  Claim C4. A second \<open>approve\<close> (or \<open>decline\<close>) after a successful one succeeds and leaves
  the whole database, so every field of the post, as the first one left it, whatever the
  clock of the second call; the state after two calls is the state after one; on a post
  that is not in \<open>needs_review\<close> a permitted caller gets success and an unchanged database;
  and for a permitted caller both calls succeed (for \<open>approve\<close>, when no change of author
  is asked for, which has conditions of its own).
\<close>

theorem review_actions_idempotent:
  "(approve c a now s = (Inr (), s1) \<longrightarrow> approve c a now' s1 = (Inr (), s1)) \<and>
   (decline c i r now s = (Inr (), s2) \<longrightarrow> decline c i r now' s2 = (Inr (), s2)) \<and>
   snd (approve c a now' (snd (approve c a now s))) = snd (approve c a now s) \<and>
   snd (decline c i r now' (snd (decline c i r now s))) = snd (decline c i r now s) \<and>
   (get_post s (ap_postId a) = Some p \<and> p_status p \<noteq> needs_review \<and>
      approve_hasPermission s u p \<longrightarrow> approve (Some u) a now s = (Inr (), s)) \<and>
   (get_post s i = Some q \<and> p_status q \<noteq> needs_review \<and>
      decline_hasPermission s u q \<longrightarrow> decline (Some u) i r now s = (Inr (), s)) \<and>
   (get_post s (ap_postId a) = Some p \<and> approve_hasPermission s u p \<and> ap_agentId a = None \<longrightarrow>
      fst (approve (Some u) a now s) = Inr () \<and>
      approve (Some u) a now' (snd (approve (Some u) a now s)) =
        (Inr (), snd (approve (Some u) a now s))) \<and>
   (get_post s i = Some q \<and> decline_hasPermission s u q \<longrightarrow>
      fst (decline (Some u) i r now s) = Inr () \<and>
      decline (Some u) i r now' (snd (decline (Some u) i r now s)) =
        (Inr (), snd (decline (Some u) i r now s)))"
proof (intro conjI impI)
  show "approve c a now' s1 = (Inr (), s1)" if "approve c a now s = (Inr (), s1)"
    using that by (rule approve_twice)
  show "decline c i r now' s2 = (Inr (), s2)" if "decline c i r now s = (Inr (), s2)"
    using that by (rule decline_twice)
  show "snd (approve c a now' (snd (approve c a now s))) = snd (approve c a now s)"
    by (rule approve_state_idempotent)
  show "snd (decline c i r now' (snd (decline c i r now s))) = snd (decline c i r now s)"
    by (rule decline_state_idempotent)
  show "approve (Some u) a now s = (Inr (), s)"
    if "get_post s (ap_postId a) = Some p \<and> p_status p \<noteq> needs_review \<and>
        approve_hasPermission s u p"
    using that by (simp add: approve_def Let_def)
  show "decline (Some u) i r now s = (Inr (), s)"
    if "get_post s i = Some q \<and> p_status q \<noteq> needs_review \<and> decline_hasPermission s u q"
    using that by (simp add: decline_def Let_def)
next
  assume h: "get_post s (ap_postId a) = Some p \<and> approve_hasPermission s u p \<and>
             ap_agentId a = None"
  then show f: "fst (approve (Some u) a now s) = Inr ()"
    by (simp add: approve_def Let_def)
  then have "approve (Some u) a now s = (Inr (), snd (approve (Some u) a now s))"
    by (simp add: prod_eq_iff)
  then show "approve (Some u) a now' (snd (approve (Some u) a now s)) =
               (Inr (), snd (approve (Some u) a now s))"
    by (rule approve_twice)
next
  assume h: "get_post s i = Some q \<and> decline_hasPermission s u q"
  then show f: "fst (decline (Some u) i r now s) = Inr ()"
    by (simp add: decline_def)
  then have "decline (Some u) i r now s = (Inr (), snd (decline (Some u) i r now s))"
    by (simp add: prod_eq_iff)
  then show "decline (Some u) i r now' (snd (decline (Some u) i r now s)) =
               (Inr (), snd (decline (Some u) i r now s))"
    by (rule decline_twice)
qed

lemma example_searchText:
  "toLowerCase ''Tip Body react typescript'' = ''tip body react typescript''"
  by (simp add: toLowerCase_def lower_char_def char_of_def bit_0)

lemmas review_eval =
  example_defs approve_args_def approved_db_def declined_db_def approve_def decline_def
  approve_hasPermission_def decline_hasPermission_def get_post_def get_agent_def get_user_def
  patch_post_def checkIsAdmin_def ADMIN_EMAILS_def ADMIN_USERNAMES_def example_searchText
  Let_def

theorem review_actions_idempotent_witness:
  "approve (Some 2) approve_args 50 review_db = (Inr (), approved_db) \<and>
   approve (Some 2) approve_args 60 approved_db = (Inr (), approved_db) \<and>
   decline (Some 2) 1 (Some ''off topic'') 50 review_db = (Inr (), declined_db) \<and>
   decline (Some 2) 1 (Some ''off topic'') 60 declined_db = (Inr (), declined_db) \<and>
   snd (approve (Some 2) approve_args 60 (snd (approve (Some 2) approve_args 50 review_db))) =
     approved_db \<and>
   approve (Some 2) approve_args 70 declined_db = (Inr (), declined_db) \<and>
   decline (Some 2) 1 None 70 approved_db = (Inr (), approved_db) \<and>
   fst (approve (Some 2) approve_args 50 review_db) = Inr () \<and>
   fst (decline (Some 2) 1 None 50 review_db) = Inr ()"
proof -
  have a: "approve (Some 2) approve_args 50 review_db = (Inr (), approved_db)"
    by (simp add: review_eval)
  have d: "decline (Some 2) 1 (Some ''off topic'') 50 review_db = (Inr (), declined_db)"
    by (simp add: review_eval)
  have pa: "get_post approved_db 1 = Some (hd (posts approved_db)) \<and>
            p_status (hd (posts approved_db)) \<noteq> needs_review \<and>
            decline_hasPermission approved_db 2 (hd (posts approved_db))"
    by (simp add: review_eval)
  have pd: "get_post declined_db (ap_postId approve_args) = Some (hd (posts declined_db)) \<and>
            p_status (hd (posts declined_db)) \<noteq> needs_review \<and>
            approve_hasPermission declined_db 2 (hd (posts declined_db))"
    by (simp add: review_eval)
  note t1 = review_actions_idempotent[where c = "Some 2" and a = approve_args and now = 50
      and s = review_db and ?s1.0 = approved_db and now' = 60 and i = 1
      and r = "Some ''off topic''" and ?s2.0 = declined_db]
  note t2 = review_actions_idempotent[where a = approve_args and s = declined_db and u = 2
      and p = "hd (posts declined_db)" and now = 70]
  note t3 = review_actions_idempotent[where i = 1 and s = approved_db and u = 2
      and q = "hd (posts approved_db)" and now = 70 and r = None]
  note a2 = t1[THEN conjunct1, rule_format, OF a]
  note d2 = t1[THEN conjunct2, THEN conjunct1, rule_format, OF d]
  note twice = t1[THEN conjunct2, THEN conjunct2, THEN conjunct1]
  note a3 = t2[THEN conjunct2, THEN conjunct2, THEN conjunct2, THEN conjunct2, THEN conjunct1,
      rule_format, OF pd]
  note d3 = t3[THEN conjunct2, THEN conjunct2, THEN conjunct2, THEN conjunct2, THEN conjunct2,
      THEN conjunct1, rule_format, OF pa]
  have pm: "get_post review_db (ap_postId approve_args) = Some example_post \<and>
            approve_hasPermission review_db 2 example_post \<and> ap_agentId approve_args = None"
    by (simp add: review_eval)
  have dm: "get_post review_db 1 = Some example_post \<and>
            decline_hasPermission review_db 2 example_post"
    by (simp add: review_eval)
  note t4 = review_actions_idempotent[where a = approve_args and s = review_db and u = 2
      and p = example_post and q = example_post and i = 1 and now = 50 and now' = 60
      and r = None]
  note a4 = t4[THEN conjunct2, THEN conjunct2, THEN conjunct2, THEN conjunct2, THEN conjunct2,
      THEN conjunct2, THEN conjunct1, rule_format, OF pm, THEN conjunct1]
  note d4 = t4[THEN conjunct2, THEN conjunct2, THEN conjunct2, THEN conjunct2, THEN conjunct2,
      THEN conjunct2, THEN conjunct2, rule_format, OF dm, THEN conjunct1]
  have e: "snd (approve (Some 2) approve_args 60
              (snd (approve (Some 2) approve_args 50 review_db))) = approved_db"
    using twice by (simp only: a snd_conv)
  from a a2 d d2 e a3 d3 a4 d4 show ?thesis by (intro conjI)
qed

text \<open>
  Claim C6, as stated: the callers allowed to decline a post are the callers allowed to
  approve it, administrators included. The administrator 3, who is neither the linked human
  nor the legacy owner of the example post, approves it and is refused by \<open>decline\<close>.
\<close>

theorem admin_cannot_decline:
  "is_admin review_db 3 \<and> \<not> linked_human review_db example_post 3 \<and>
   p_userId example_post \<noteq> 3 \<and> get_post review_db 1 = Some example_post \<and>
   fst (approve (Some 3) approve_args 50 review_db) = Inr () \<and>
   decline (Some 3) 1 None 50 review_db =
     (Inl (ConvexError ''FORBIDDEN'' ''Not your post to review''), review_db)"
  by (simp add: review_eval is_admin_def linked_human_def)

text \<open>
  Claim C6, amended. For a signed-in caller and an existing post, \<open>decline\<close> answers
  FORBIDDEN exactly when the caller is neither the human linked to the post's agent nor the
  legacy owner; \<open>approve\<close> answers its ownership FORBIDDEN exactly when the caller is, in
  addition, no administrator. So whoever may decline a post may approve it, and the
  administrator override exists on \<open>approve\<close> only.
\<close>

theorem decline_permission_model:
  assumes "get_post s i = Some p" and "ap_postId a = i"
  shows "(fst (decline (Some u) i r now s) =
            Inl (ConvexError ''FORBIDDEN'' ''Not your post to review'')) =
         (\<not> (linked_human s p u \<or> p_userId p = u)) \<and>
         (fst (approve (Some u) a now s) =
            Inl (ConvexError ''FORBIDDEN'' ''Not your post to review'')) =
         (\<not> (is_admin s u \<or> linked_human s p u \<or> p_userId p = u)) \<and>
         (fst (decline (Some u) i r now s) \<noteq>
            Inl (ConvexError ''FORBIDDEN'' ''Not your post to review'') \<longrightarrow>
          fst (approve (Some u) a now s) \<noteq>
            Inl (ConvexError ''FORBIDDEN'' ''Not your post to review''))"
proof -
  have d: "(fst (decline (Some u) i r now s) =
            Inl (ConvexError ''FORBIDDEN'' ''Not your post to review'')) =
         (\<not> (linked_human s p u \<or> p_userId p = u))"
    using assms(1) by (simp add: decline_def decline_hasPermission_iff)
  have a: "(fst (approve (Some u) a now s) =
            Inl (ConvexError ''FORBIDDEN'' ''Not your post to review'')) =
         (\<not> (is_admin s u \<or> linked_human s p u \<or> p_userId p = u))"
    using assms by (simp add: approve_def approve_hasPermission_iff Let_def)
  from d a show ?thesis by blast
qed

theorem decline_permission_model_witness:
  "get_post review_db 1 = Some example_post \<and> ap_postId approve_args = 1 \<and>
   linked_human review_db example_post 2 \<and>
   fst (decline (Some 2) 1 None 50 review_db) \<noteq>
     Inl (ConvexError ''FORBIDDEN'' ''Not your post to review'') \<and>
   fst (approve (Some 2) approve_args 50 review_db) \<noteq>
     Inl (ConvexError ''FORBIDDEN'' ''Not your post to review'')"
proof -
  have g: "get_post review_db 1 = Some example_post"
    by (simp add: example_defs get_post_def)
  have i: "ap_postId approve_args = 1"
    by (simp add: approve_args_def)
  have l: "linked_human review_db example_post 2"
    by (simp add: example_defs linked_human_def get_agent_def)
  note t = decline_permission_model[OF g i, of 2 None 50]
  from t l have "fst (decline (Some 2) 1 None 50 review_db) \<noteq>
     Inl (ConvexError ''FORBIDDEN'' ''Not your post to review'')"
    by blast
  moreover from t l have "fst (approve (Some 2) approve_args 50 review_db) \<noteq>
     Inl (ConvexError ''FORBIDDEN'' ''Not your post to review'')"
    by blast
  ultimately show ?thesis using g i l by (intro conjI)
qed

subsection \<open>Email actions and soft deletion\<close>

lemma sort_key_set_filter:
  "set (take n (filter P (sort_key f (filter Q xs)))) \<subseteq> {x \<in> set xs. Q x \<and> P x}"
  using set_take_subset[of n "filter P (sort_key f (filter Q xs))"] by auto

lemma pending_not_deleted:
  assumes "pe \<in> set (getPendingAutoPublish now s)"
  shows "\<exists>p \<in> set (posts s). p_id p = pe_id pe \<and> p_status p = needs_review \<and>
           \<not> p_isDeleted p \<and> p_reviewDeadline p < now"
  using assms sort_key_set_filter[of 100
      "\<lambda>p. p_reviewDeadline p < now \<and> p_isDeleted p = False" p_reviewDeadline
      "\<lambda>p. p_status p = needs_review" "posts s"]
  unfolding getPendingAutoPublish_def by_reviewDeadline_def by auto

lemma distinct_id_unique:
  "distinct (map p_id ps) \<Longrightarrow> p \<in> set ps \<Longrightarrow> q \<in> set ps \<Longrightarrow> p_id p = p_id q \<Longrightarrow> p = q"
  by (simp add: distinct_map inj_on_def)

text \<open>
  Claim C10. A post that is soft-deleted and still in \<open>needs_review\<close> is approved by
  \<open>approveViaEmail\<close> and declined by \<open>declineViaEmail\<close>, each reporting
  \<open>alreadyProcessed = false\<close> and leaving the post deleted, although \<open>autoPublish\<close> leaves
  such a post alone, the read path gives \<open>null\<close> for it, and the sweep's query does not list
  it.
\<close>

theorem email_actions_ignore_soft_delete:
  assumes "get_post s i = Some p" and "p_isDeleted p" and "p_status p = needs_review"
  shows "fst (approveViaEmail i now s) = \<lparr> alreadyProcessed = False, er_status = None \<rparr> \<and>
         get_post (snd (approveViaEmail i now s)) i =
           Some (p\<lparr> p_status := approved, p_reviewedAt := Some now, p_publishedAt := Some now,
                    p_updatedAt := now, p_isHumanVerified := Some True \<rparr>) \<and>
         fst (declineViaEmail i now s) = \<lparr> alreadyProcessed = False, er_status = None \<rparr> \<and>
         get_post (snd (declineViaEmail i now s)) i =
           Some (p\<lparr> p_status := declined, p_reviewedAt := Some now,
                    p_declineReason := Some ''Declined via email'', p_updatedAt := now \<rparr>) \<and>
         autoPublish i now s = s \<and>
         getInternal s i = None \<and>
         (distinct (map p_id (posts s)) \<longrightarrow> i \<notin> pe_id ` set (getPendingAutoPublish now s))"
proof -
  have a: "approveViaEmail i now s =
      (\<lparr> alreadyProcessed = False, er_status = None \<rparr>,
       patch_post i (\<lambda>q. q\<lparr> p_status := approved, p_reviewedAt := Some now,
            p_publishedAt := Some now, p_updatedAt := now, p_isHumanVerified := Some True \<rparr>) s)"
    using assms by (simp add: approveViaEmail_def)
  have d: "declineViaEmail i now s =
      (\<lparr> alreadyProcessed = False, er_status = None \<rparr>,
       patch_post i (\<lambda>q. q\<lparr> p_status := declined, p_reviewedAt := Some now,
            p_declineReason := Some ''Declined via email'', p_updatedAt := now \<rparr>) s)"
    using assms by (simp add: declineViaEmail_def)
  have u: "autoPublish i now s = s" "getInternal s i = None"
    using assms by (simp_all add: autoPublish_def getInternal_def)
  have n: "i \<notin> pe_id ` set (getPendingAutoPublish now s)"
    if dist: "distinct (map p_id (posts s))"
  proof
    assume "i \<in> pe_id ` set (getPendingAutoPublish now s)"
    then obtain pe where "pe \<in> set (getPendingAutoPublish now s)" "pe_id pe = i" by auto
    from pending_not_deleted[OF this(1)] this(2) obtain q
      where q: "q \<in> set (posts s)" "p_id q = i" "\<not> p_isDeleted q" by auto
    have "q = p"
      using distinct_id_unique[OF dist q(1) get_post_mem[OF assms(1)]] q(2)
        get_post_id[OF assms(1)] by simp
    with q(3) assms(2) show False by simp
  qed
  show ?thesis
    using a d u n assms(1) by (simp add: get_post_patch)
qed

theorem email_actions_ignore_soft_delete_witness:
  "map_option p_isDeleted (get_post deleted_db 1) = Some True \<and>
   map_option p_status (get_post deleted_db 1) = Some needs_review \<and>
   fst (approveViaEmail 1 50 deleted_db) = \<lparr> alreadyProcessed = False, er_status = None \<rparr> \<and>
   map_option p_status (get_post (snd (approveViaEmail 1 50 deleted_db)) 1) = Some approved \<and>
   fst (declineViaEmail 1 50 deleted_db) = \<lparr> alreadyProcessed = False, er_status = None \<rparr> \<and>
   map_option p_status (get_post (snd (declineViaEmail 1 50 deleted_db)) 1) = Some declined \<and>
   autoPublish 1 50 deleted_db = deleted_db \<and> getInternal deleted_db 1 = None"
proof -
  have g: "get_post deleted_db 1 = Some (example_post\<lparr> p_isDeleted := True \<rparr>)"
    by (simp add: deleted_db_def example_defs get_post_def)
  have del: "p_isDeleted (example_post\<lparr> p_isDeleted := True \<rparr>)" by simp
  have st: "p_status (example_post\<lparr> p_isDeleted := True \<rparr>) = needs_review"
    by (simp add: example_post_def)
  note t = email_actions_ignore_soft_delete[OF g del st, of 50]
  from t g st show ?thesis by simp
qed

subsection \<open>The deadline sweep\<close>

lemma getPendingAutoPublish_batch:
  "getPendingAutoPublish now s =
   map (\<lambda>p. \<lparr> pe_id = p_id p, pe_agentId = p_agentId p, pe_userId = p_userId p \<rparr>)
     (batch now s)"
proof -
  have "filter (\<lambda>p. p_reviewDeadline p < now \<and> p_isDeleted p = False)
          (filter (\<lambda>p. p_status p = needs_review) (posts s)) =
        filter (eligible now) (posts s)"
    unfolding filter_filter by (intro filter_cong refl) (auto simp: eligible_def)
  then have "filter (\<lambda>p. p_reviewDeadline p < now \<and> p_isDeleted p = False)
          (sort_key p_reviewDeadline (filter (\<lambda>p. p_status p = needs_review) (posts s))) =
        filter (eligible now) (sort_key p_reviewDeadline (posts s))"
    by (simp only: filter_sort)
  then show ?thesis
    by (simp only: getPendingAutoPublish_def by_reviewDeadline_def batch_def)
qed

lemma set_batch: "set (batch now s) \<subseteq> {p \<in> set (posts s). eligible now p}"
proof
  fix p assume "p \<in> set (batch now s)"
  then have "p \<in> set (filter (eligible now) (sort_key p_reviewDeadline (posts s)))"
    unfolding batch_def by (rule in_set_takeD)
  then show "p \<in> {p \<in> set (posts s). eligible now p}" by simp
qed

lemma length_batch:
  "length (batch now s) = min 100 (length (filter (eligible now) (posts s)))"
  by (simp add: batch_def filter_sort min.commute)

lemma set_batch_all:
  assumes "length (filter (eligible now) (posts s)) \<le> 100"
  shows "set (batch now s) = {p \<in> set (posts s). eligible now p}"
proof -
  have "length (filter (eligible now) (sort_key p_reviewDeadline (posts s))) \<le> 100"
    using assms by (simp add: filter_sort)
  then have "batch now s = filter (eligible now) (sort_key p_reviewDeadline (posts s))"
    by (simp add: batch_def)
  then show ?thesis by auto
qed

lemma distinct_batch: "distinct (posts s) \<Longrightarrow> distinct (batch now s)"
  by (simp add: batch_def)

lemma find_None_id: "find (\<lambda>p. p_id p = i) ps = None \<Longrightarrow> q \<in> set ps \<Longrightarrow> p_id q \<noteq> i"
  by (auto simp: find_None_iff)

lemma published_simps [simp]:
  "p_id (published now p) = p_id p" "p_status (published now p) = auto_published"
  "p_userId (published now p) = p_userId p" "p_agentId (published now p) = p_agentId p"
  by (simp_all add: published_def)

lemma published_fun:
  "(\<lambda>q. q\<lparr> p_status := auto_published, p_publishedAt := Some now, p_updatedAt := now,
           p_isHumanVerified := Some False \<rparr>) = published now"
  by (rule ext) (simp add: published_def)

lemma eligible_published [simp]: "\<not> eligible now (published t p)"
  by (simp add: eligible_def)

lemma publish_ids_id [simp]: "p_id (publish_ids clock I p) = p_id p"
  by (simp add: publish_ids_def)

lemma publish_ids_empty [simp]: "publish_ids clock {} p = p"
  by (simp add: publish_ids_def)

lemma publish_ids_comp:
  "publish_ids clock I (publish_ids clock {i} p) = publish_ids clock (insert i I) p"
  by (cases "p_id p = i"; cases "p_status p = needs_review \<and> \<not> p_isDeleted p")
     (auto simp: publish_ids_def)

lemma autoPublish_posts:
  assumes "distinct (map p_id (posts s))"
  shows "autoPublish i (clock i) s = s\<lparr>posts := map (publish_ids clock {i}) (posts s)\<rparr>"
proof (cases "get_post s i")
  case None
  then have "\<And>q. q \<in> set (posts s) \<Longrightarrow> p_id q \<noteq> i"
    unfolding get_post_def by (rule find_None_id)
  then have "map (publish_ids clock {i}) (posts s) = posts s"
    by (intro map_idI) (simp add: publish_ids_def)
  with None show ?thesis by (simp add: autoPublish_def)
next
  case (Some p)
  have uniq: "\<And>q. q \<in> set (posts s) \<Longrightarrow> p_id q = i \<Longrightarrow> q = p"
    using distinct_id_unique[OF assms _ get_post_mem[OF Some]] get_post_id[OF Some] by simp
  show ?thesis
  proof (cases "p_status p = needs_review \<and> \<not> p_isDeleted p")
    case True
    have "\<And>q. q \<in> set (posts s) \<Longrightarrow>
            (if p_id q = i then published (clock i) q else q) = publish_ids clock {i} q"
      using uniq True by (auto simp: publish_ids_def)
    then have "map (\<lambda>q. if p_id q = i then published (clock i) q else q) (posts s) =
               map (publish_ids clock {i}) (posts s)"
      by (intro map_cong refl)
    moreover have "autoPublish i (clock i) s =
        s\<lparr>posts := map (\<lambda>q. if p_id q = i then published (clock i) q else q) (posts s)\<rparr>"
      using Some True by (simp add: autoPublish_def published_fun patch_post_def)
    ultimately show ?thesis by (simp only:)
  next
    case False
    have "\<And>q. q \<in> set (posts s) \<Longrightarrow> publish_ids clock {i} q = q"
      using uniq False by (auto simp: publish_ids_def)
    then have "map (publish_ids clock {i}) (posts s) = posts s"
      by (intro map_idI)
    moreover have "autoPublish i (clock i) s = s"
      using Some False by (auto simp: autoPublish_def)
    ultimately show ?thesis by simp
  qed
qed

lemma fold_step:
  assumes "distinct (map p_id (posts s))"
  shows "fold (processAutoPublish_step clock) pes s =
         s\<lparr>posts := map (publish_ids clock (pe_id ` set pes)) (posts s),
           scheduled := scheduled s @
             map (\<lambda>pe. sendAutoPublishedNotification (pe_id pe) (pe_userId pe)) pes\<rparr>"
  using assms
proof (induction pes arbitrary: s)
  case Nil
  have "map (publish_ids clock {}) (posts s) = posts s"
    by (intro map_idI) simp
  then show ?case by simp
next
  case (Cons pe pes)
  let ?s1 = "processAutoPublish_step clock pe s"
  have s1: "?s1 = s\<lparr>posts := map (publish_ids clock {pe_id pe}) (posts s),
                    scheduled := scheduled s @
                      [sendAutoPublishedNotification (pe_id pe) (pe_userId pe)]\<rparr>"
    by (simp add: processAutoPublish_step_def schedule_def autoPublish_posts[OF Cons.prems])
  have "map p_id (posts ?s1) = map p_id (posts s)"
    by (simp add: s1 o_def)
  then have d1: "distinct (map p_id (posts ?s1))" using Cons.prems by simp
  have comp: "map (publish_ids clock (pe_id ` set pes)) (map (publish_ids clock {pe_id pe}) (posts s)) =
              map (publish_ids clock (pe_id ` set (pe # pes))) (posts s)"
    by (simp add: o_def publish_ids_comp)
  have "fold (processAutoPublish_step clock) (pe # pes) s =
        fold (processAutoPublish_step clock) pes ?s1" by simp
  also have "\<dots> = ?s1\<lparr>posts := map (publish_ids clock (pe_id ` set pes)) (posts ?s1),
           scheduled := scheduled ?s1 @
             map (\<lambda>pe. sendAutoPublishedNotification (pe_id pe) (pe_userId pe)) pes\<rparr>"
    by (rule Cons.IH[OF d1])
  also have "\<dots> = s\<lparr>posts := map (publish_ids clock (pe_id ` set (pe # pes))) (posts s),
           scheduled := scheduled s @
             map (\<lambda>pe. sendAutoPublishedNotification (pe_id pe) (pe_userId pe)) (pe # pes)\<rparr>"
    unfolding s1 using comp by simp
  finally show ?case .
qed

lemma publish_ids_batch:
  assumes "distinct (map p_id (posts s))" and p: "p \<in> set (posts s)"
  shows "publish_ids clock (p_id ` set (batch now s)) p =
         (if p \<in> set (batch now s) then published (clock (p_id p)) p else p)"
proof (cases "p \<in> set (batch now s)")
  case True
  then have "eligible now p" using set_batch[of now s] by auto
  with True show ?thesis by (simp add: publish_ids_def eligible_def)
next
  case False
  have "p_id p \<notin> p_id ` set (batch now s)"
  proof
    assume "p_id p \<in> p_id ` set (batch now s)"
    then obtain q where q: "q \<in> set (batch now s)" "p_id q = p_id p" by auto
    then have "q \<in> set (posts s)" using set_batch[of now s] by auto
    then have "q = p" using distinct_id_unique[OF assms(1) _ p] q(2) by simp
    with q(1) False show False by simp
  qed
  with False show ?thesis by (simp add: publish_ids_def)
qed

lemma processAutoPublish_eq:
  assumes "distinct (map p_id (posts s))"
  shows "processAutoPublish now clock s =
         (length (batch now s),
          s\<lparr>posts := map (\<lambda>p. if p \<in> set (batch now s) then published (clock (p_id p)) p else p) (posts s),
            scheduled := scheduled s @
              map (\<lambda>p. sendAutoPublishedNotification (p_id p) (p_userId p)) (batch now s)\<rparr>)"
proof -
  let ?proj = "\<lambda>p. \<lparr> pe_id = p_id p, pe_agentId = p_agentId p, pe_userId = p_userId p \<rparr>"
  have ids: "pe_id ` set (map ?proj (batch now s)) = p_id ` set (batch now s)"
    by (simp add: image_image)
  have jobs: "map (\<lambda>pe. sendAutoPublishedNotification (pe_id pe) (pe_userId pe))
                (map ?proj (batch now s)) =
              map (\<lambda>p. sendAutoPublishedNotification (p_id p) (p_userId p)) (batch now s)"
    by (simp add: o_def)
  have m: "map (publish_ids clock (p_id ` set (batch now s))) (posts s) =
           map (\<lambda>p. if p \<in> set (batch now s) then published (clock (p_id p)) p else p) (posts s)"
    by (intro map_cong refl) (rule publish_ids_batch[OF assms])
  have "processAutoPublish now clock s =
        (length (batch now s),
         fold (processAutoPublish_step clock) (map ?proj (batch now s)) s)"
    by (simp add: processAutoPublish_def getPendingAutoPublish_batch Let_def)
  also have "fold (processAutoPublish_step clock) (map ?proj (batch now s)) s =
      s\<lparr>posts := map (publish_ids clock (pe_id ` set (map ?proj (batch now s)))) (posts s),
        scheduled := scheduled s @
          map (\<lambda>pe. sendAutoPublishedNotification (pe_id pe) (pe_userId pe))
            (map ?proj (batch now s))\<rparr>"
    by (rule fold_step[OF assms])
  finally show ?thesis
    by (simp only: ids jobs m)
qed

lemma filter_eligible_map:
  "filter (eligible now) (map (\<lambda>p. if p \<in> B then published (clock (p_id p)) p else p) ps) =
   map (\<lambda>p. if p \<in> B then published (clock (p_id p)) p else p) (filter (\<lambda>p. p \<notin> B \<and> eligible now p) ps)"
  by (induction ps) simp_all

lemma eligible_after_sweep:
  assumes "distinct (map p_id (posts s))"
  shows "length (filter (eligible now) (posts (snd (processAutoPublish now clock s)))) =
         length (filter (eligible now) (posts s)) - length (batch now s)"
proof -
  let ?B = "set (batch now s)"
  let ?E = "filter (eligible now) (posts s)"
  have dp: "distinct (posts s)" using assms by (simp add: distinct_map)
  have "posts (snd (processAutoPublish now clock s)) =
        map (\<lambda>p. if p \<in> ?B then published (clock (p_id p)) p else p) (posts s)"
    by (simp add: processAutoPublish_eq[OF assms])
  then have "length (filter (eligible now) (posts (snd (processAutoPublish now clock s)))) =
             length (filter (\<lambda>p. p \<notin> ?B \<and> eligible now p) (posts s))"
    by (simp only: filter_eligible_map length_map)
  also have "\<dots> = card ({p. p \<notin> ?B \<and> eligible now p} \<inter> set (posts s))"
    using dp by (rule distinct_length_filter)
  also have "{p. p \<notin> ?B \<and> eligible now p} \<inter> set (posts s) = set ?E - ?B"
    by auto
  also have "card (set ?E - ?B) = card (set ?E) - card ?B"
    using set_batch[of now s] by (intro card_Diff_subset) auto
  also have "card (set ?E) = length ?E"
    by (rule distinct_card) (simp add: dp)
  also have "card ?B = length (batch now s)"
    using distinct_batch[OF dp] by (simp add: distinct_card)
  finally show ?thesis .
qed

lemma rerun_count:
  assumes "distinct (map p_id (posts s))"
  shows "fst (processAutoPublish now clock' (snd (processAutoPublish now clock s))) =
         min 100 (length (filter (eligible now) (posts s)) - length (batch now s))"
  using eligible_after_sweep[OF assms, of now clock]
  by (simp add: processAutoPublish_def getPendingAutoPublish_batch length_batch Let_def)

text \<open>
  Claim C3, as stated: a second run right after the first transitions no further post. With
  101 posts past their deadline the first run takes its batch of 100 and the second run
  publishes the one that was left.
\<close>

theorem second_sweep_publishes_more:
  "length (filter (eligible 1000) (posts crowded_db)) = 101 \<and>
   fst (processAutoPublish 1000 (frozen 1000) crowded_db) = 100 \<and>
   fst (processAutoPublish 1000 (frozen 1000)
          (snd (processAutoPublish 1000 (frozen 1000) crowded_db))) = 1"
proof -
  have d: "distinct (map p_id (posts crowded_db))"
    by (simp add: crowded_db_def o_def)
  have e: "filter (eligible 1000) (posts crowded_db) = posts crowded_db"
    by (simp add: crowded_db_def eligible_def example_post_def)
  have l: "length (posts crowded_db) = 101"
    by (simp add: crowded_db_def)
  have n: "length (filter (eligible 1000) (posts crowded_db)) = 101"
    using e l by simp
  have b: "length (batch 1000 crowded_db) = 100"
    using n by (simp add: length_batch)
  have f: "fst (processAutoPublish 1000 (frozen 1000) crowded_db) = 100"
    using b by (simp add: processAutoPublish_eq[OF d])
  have r: "fst (processAutoPublish 1000 (frozen 1000) (snd (processAutoPublish 1000 (frozen 1000) crowded_db))) = 1"
    using rerun_count[OF d, of 1000 "frozen 1000" "frozen 1000"] n b by simp
  from n f r show ?thesis by (intro conjI)
qed

text \<open>
  Claim C3, amended. On a table with unique identifiers, a run at time \<open>now\<close> transitions
  exactly its batch, the first hundred eligible posts in deadline order: each gets status
  \<open>auto_published\<close>, \<open>publishedAt\<close> set to the time of its publication and
  \<open>isHumanVerified = false\<close>, and every other post is unchanged. The batch is the set of all
  eligible posts when they are at most a hundred, and then a second run at the same time
  transitions nothing and changes nothing.
\<close>

theorem sweep_exact:
  assumes "distinct (map p_id (posts s))"
  shows "posts (snd (processAutoPublish now clock s)) =
           map (\<lambda>p. if p \<in> set (batch now s) then published (clock (p_id p)) p else p)
             (posts s) \<and>
         fst (processAutoPublish now clock s) = length (batch now s) \<and>
         length (batch now s) = min 100 (length (filter (eligible now) (posts s))) \<and>
         set (batch now s) \<subseteq> {p \<in> set (posts s). eligible now p} \<and>
         (length (filter (eligible now) (posts s)) \<le> 100 \<longrightarrow>
            set (batch now s) = {p \<in> set (posts s). eligible now p} \<and>
            processAutoPublish now clock' (snd (processAutoPublish now clock s)) =
              (0, snd (processAutoPublish now clock s)))"
proof -
  let ?s' = "snd (processAutoPublish now clock s)"
  have rerun: "processAutoPublish now clock' ?s' = (0, ?s')"
    if le: "length (filter (eligible now) (posts s)) \<le> 100"
  proof -
    have "length (batch now ?s') = 0"
      using eligible_after_sweep[OF assms, of now clock] le
      by (simp add: length_batch[of now ?s'] length_batch[of now s])
    then have "getPendingAutoPublish now ?s' = []"
      by (simp add: getPendingAutoPublish_batch)
    then show ?thesis by (simp add: processAutoPublish_def)
  qed
  show ?thesis
    using rerun set_batch[of now s] set_batch_all[of now s] length_batch[of now s]
    by (simp add: processAutoPublish_eq[OF assms])
qed

theorem sweep_exact_witness:
  "distinct (map p_id (posts review_db)) \<and>
   length (filter (eligible 700000000) (posts review_db)) \<le> 100 \<and>
   posts (snd (processAutoPublish 700000000 (frozen 700000000) review_db)) =
     [published 700000000 example_post] \<and>
   fst (processAutoPublish 700000000 (frozen 700000000) review_db) = 1 \<and>
   processAutoPublish 700000000 (frozen 700000000)
       (snd (processAutoPublish 700000000 (frozen 700000000) review_db)) =
     (0, snd (processAutoPublish 700000000 (frozen 700000000) review_db))"
proof -
  have d: "distinct (map p_id (posts review_db))"
    by (simp add: review_db_def empty_db_def)
  have b: "batch 700000000 review_db = [example_post]"
    by (simp add: batch_def eligible_def review_db_def empty_db_def example_post_def)
  have n: "length (filter (eligible 700000000) (posts review_db)) \<le> 100"
    by (simp add: review_db_def empty_db_def)
  have p: "posts review_db = [example_post]"
    by (simp add: review_db_def empty_db_def)
  note t = sweep_exact[OF d, of 700000000 "frozen 700000000" "frozen 700000000"]
  from t n have r: "processAutoPublish 700000000 (frozen 700000000) (snd (processAutoPublish 700000000 (frozen 700000000) review_db)) =
     (0, snd (processAutoPublish 700000000 (frozen 700000000) review_db))" by blast
  from t have q: "posts (snd (processAutoPublish 700000000 (frozen 700000000) review_db)) =
      map (\<lambda>p. if p \<in> set (batch 700000000 review_db) then published (frozen 700000000 (p_id p)) p else p)
        (posts review_db)" by blast
  from t have c: "fst (processAutoPublish 700000000 (frozen 700000000) review_db) =
      length (batch 700000000 review_db)" by blast
  from d n r q c show ?thesis by (simp add: b p frozen_def)
qed

text \<open>The notices of a run go to the \<open>userId\<close> of each post of the batch.\<close>

lemma sweep_notifies_post_userId:
  assumes "distinct (map p_id (posts s))"
  shows "scheduled (snd (processAutoPublish now clock s)) =
         scheduled s @
           map (\<lambda>p. sendAutoPublishedNotification (p_id p) (p_userId p)) (batch now s)"
  by (simp add: processAutoPublish_eq[OF assms])

text \<open>
  Claim C5. The notice of the sweep should go to the human linked to the post's agent. In
  the example the agent of post 1 is linked to the human 2 and the post carries the
  placeholder user 1 of the agent: the sweep publishes the post and schedules the notice
  for user 1.
\<close>

theorem sweep_notifies_legacy_user:
  "map_option a_linkedUserId (get_agent review_db 1) = Some (Some 2) \<and>
   map_option p_agentId (get_post review_db 1) = Some (Some 1) \<and>
   map_option p_status
     (get_post (snd (processAutoPublish 700000000 (frozen 700000000) review_db)) 1) =
     Some auto_published \<and>
   scheduled (snd (processAutoPublish 700000000 (frozen 700000000) review_db)) =
     [sendAutoPublishedNotification 1 1]"
  by (simp add: review_db_def empty_db_def example_post_def get_agent_def get_post_def
      processAutoPublish_def getPendingAutoPublish_def by_reviewDeadline_def
      processAutoPublish_step_def autoPublish_def patch_post_def schedule_def frozen_def
      Let_def)

subsection \<open>The signup rate limiter\<close>

lemma find_map_fingerprint:
  assumes "\<And>r. rl_fingerprint (g r) = rl_fingerprint r"
  shows "find (\<lambda>r. rl_fingerprint r = fp) (map g rs) =
         map_option g (find (\<lambda>r. rl_fingerprint r = fp) rs)"
  by (induction rs) (auto simp: assms)

lemma find_append_new:
  "find P xs = None \<Longrightarrow> P y \<Longrightarrow> find P (xs @ [y]) = Some y"
  by (induction xs) (auto split: if_splits)

lemma check_first:
  assumes "rl_lookup s fp = None"
  shows "\<exists>e. fst (checkInitRateLimit fp now s) = \<lparr> allowed = True, retryAfter = None \<rparr> \<and>
         rl_lookup (snd (checkInitRateLimit fp now s)) fp = Some e \<and> rl_timestamps e = [now]"
  using assms find_append_new[of "\<lambda>r. rl_fingerprint r = fp" "agentSignupRateLimits s"]
  by (simp add: rl_lookup_def checkInitRateLimit_def)

lemma check_allowed:
  assumes "rl_lookup s fp = Some e"
    and "length (filter (\<lambda>ts. now - ts < windowMs) (rl_timestamps e)) < 5"
  shows "\<exists>e'. fst (checkInitRateLimit fp now s) = \<lparr> allowed = True, retryAfter = None \<rparr> \<and>
         rl_lookup (snd (checkInitRateLimit fp now s)) fp = Some e' \<and>
         rl_timestamps e' = filter (\<lambda>ts. now - ts < windowMs) (rl_timestamps e) @ [now]"
proof -
  let ?recent = "filter (\<lambda>ts. now - ts < windowMs) (rl_timestamps e)"
  let ?g = "\<lambda>r. if rl_id r = rl_id e
                 then r\<lparr> rl_timestamps := ?recent @ [now], rl_lastUpdated := now \<rparr> else r"
  have r: "checkInitRateLimit fp now s =
           (\<lparr> allowed = True, retryAfter = None \<rparr>,
            s\<lparr>agentSignupRateLimits := map ?g (agentSignupRateLimits s)\<rparr>)"
    using assms by (simp add: rl_lookup_def checkInitRateLimit_def MAX_INIT_PER_HOUR_def Let_def)
  have "find (\<lambda>r. rl_fingerprint r = fp) (map ?g (agentSignupRateLimits s)) =
        map_option ?g (find (\<lambda>r. rl_fingerprint r = fp) (agentSignupRateLimits s))"
    by (rule find_map_fingerprint) simp
  then have "rl_lookup (snd (checkInitRateLimit fp now s)) fp = Some (?g e)"
    using assms(1) by (simp add: r rl_lookup_def)
  then show ?thesis by (simp add: r)
qed

lemma check_denied:
  assumes "rl_lookup s fp = Some e"
    and "length (filter (\<lambda>ts. now - ts < windowMs) (rl_timestamps e)) \<ge> 5"
  shows "checkInitRateLimit fp now s =
           (\<lparr> allowed = False,
              retryAfter = Some (ceil_div_1000
                (Math_min (filter (\<lambda>ts. now - ts < windowMs) (rl_timestamps e))
                   + windowMs - now)) \<rparr>, s)"
  using assms by (simp add: rl_lookup_def checkInitRateLimit_def MAX_INIT_PER_HOUR_def Let_def)

lemma ceil_div_1000_bounds:
  "1000 * (ceil_div_1000 x - 1) < x \<and> x \<le> 1000 * ceil_div_1000 x"
proof -
  define q where "q = (- x) div 1000"
  define r where "r = (- x) mod 1000"
  have "0 \<le> r" and "r < 1000"
    by (simp_all add: r_def)
  moreover have "- x = 1000 * q + r"
    by (simp add: q_def r_def)
  ultimately have "1000 * (- q - 1) < x \<and> x \<le> 1000 * (- q)"
    by (simp_all add: algebra_simps)
  then show ?thesis
    by (simp only: ceil_div_1000_def q_def)
qed

lemma ceil_div_1000_pos: "0 < x \<Longrightarrow> 0 < ceil_div_1000 x"
  using ceil_div_1000_bounds[of x] by linarith

text \<open>
  Claim C8. From a state with no record for the fingerprint, six requests at times
  \<open>t1 \<le> \<dots> \<le> t6\<close> inside one window (\<open>t6 - t1 < windowMs\<close>): the first five are allowed,
  the sixth is denied and leaves the state alone, its \<open>retryAfter\<close> is the number of
  milliseconds until \<open>t1\<close>, the oldest timestamp, leaves the window, in seconds and rounded
  up, which is positive; and a request at a time \<open>t7\<close> at which the window has passed the
  last recorded timestamp is allowed.
\<close>

theorem rate_limit_boundary:
  assumes "rl_lookup s fp = None"
    and "t1 \<le> t2" and "t2 \<le> t3" and "t3 \<le> t4" and "t4 \<le> t5" and "t5 \<le> t6"
    and "t6 - t1 < windowMs" and "t7 - t5 \<ge> windowMs"
  shows "map allowed (fst (requests fp [t1, t2, t3, t4, t5, t6] s)) =
           [True, True, True, True, True, False] \<and>
         map retryAfter (fst (requests fp [t1, t2, t3, t4, t5, t6] s)) =
           [None, None, None, None, None, Some (ceil_div_1000 (t1 + windowMs - t6))] \<and>
         0 < ceil_div_1000 (t1 + windowMs - t6) \<and>
         1000 * (ceil_div_1000 (t1 + windowMs - t6) - 1) < t1 + windowMs - t6 \<and>
         t1 + windowMs - t6 \<le> 1000 * ceil_div_1000 (t1 + windowMs - t6) \<and>
         snd (requests fp [t1, t2, t3, t4, t5, t6] s) = snd (requests fp [t1, t2, t3, t4, t5] s) \<and>
         fst (checkInitRateLimit fp t7 (snd (requests fp [t1, t2, t3, t4, t5, t6] s))) =
           \<lparr> allowed = True, retryAfter = None \<rparr>"
proof -
  let ?ok = "\<lparr> allowed = True, retryAfter = None \<rparr>"
  define s1 where "s1 = snd (checkInitRateLimit fp t1 s)"
  define s2 where "s2 = snd (checkInitRateLimit fp t2 s1)"
  define s3 where "s3 = snd (checkInitRateLimit fp t3 s2)"
  define s4 where "s4 = snd (checkInitRateLimit fp t4 s3)"
  define s5 where "s5 = snd (checkInitRateLimit fp t5 s4)"
  from check_first[OF assms(1), of t1] obtain e1 where
    c1: "fst (checkInitRateLimit fp t1 s) = ?ok" and
    e1: "rl_lookup s1 fp = Some e1" "rl_timestamps e1 = [t1]"
    unfolding s1_def by blast
  have f2: "filter (\<lambda>ts. t2 - ts < windowMs) (rl_timestamps e1) = [t1]"
    using assms e1(2) by simp
  from check_allowed[OF e1(1), of t2] f2 obtain e2 where
    c2: "fst (checkInitRateLimit fp t2 s1) = ?ok" and
    e2: "rl_lookup s2 fp = Some e2" "rl_timestamps e2 = [t1, t2]"
    unfolding s2_def by auto
  have f3: "filter (\<lambda>ts. t3 - ts < windowMs) (rl_timestamps e2) = [t1, t2]"
    using assms e2(2) by simp
  from check_allowed[OF e2(1), of t3] f3 obtain e3 where
    c3: "fst (checkInitRateLimit fp t3 s2) = ?ok" and
    e3: "rl_lookup s3 fp = Some e3" "rl_timestamps e3 = [t1, t2, t3]"
    unfolding s3_def by auto
  have f4: "filter (\<lambda>ts. t4 - ts < windowMs) (rl_timestamps e3) = [t1, t2, t3]"
    using assms e3(2) by simp
  from check_allowed[OF e3(1), of t4] f4 obtain e4 where
    c4: "fst (checkInitRateLimit fp t4 s3) = ?ok" and
    e4: "rl_lookup s4 fp = Some e4" "rl_timestamps e4 = [t1, t2, t3, t4]"
    unfolding s4_def by auto
  have f5: "filter (\<lambda>ts. t5 - ts < windowMs) (rl_timestamps e4) = [t1, t2, t3, t4]"
    using assms e4(2) by simp
  from check_allowed[OF e4(1), of t5] f5 obtain e5 where
    c5: "fst (checkInitRateLimit fp t5 s4) = ?ok" and
    e5: "rl_lookup s5 fp = Some e5" "rl_timestamps e5 = [t1, t2, t3, t4, t5]"
    unfolding s5_def by auto
  have f6: "filter (\<lambda>ts. t6 - ts < windowMs) (rl_timestamps e5) = [t1, t2, t3, t4, t5]"
    using assms e5(2) by simp
  have m: "Math_min [t1, t2, t3, t4, t5] = t1"
    using assms by (simp add: Math_min_def)
  have c6: "checkInitRateLimit fp t6 s5 =
      (\<lparr> allowed = False, retryAfter = Some (ceil_div_1000 (t1 + windowMs - t6)) \<rparr>, s5)"
    using check_denied[OF e5(1), of t6] f6 m by simp
  have f7: "filter (\<lambda>ts. t7 - ts < windowMs) (rl_timestamps e5) = []"
    using assms e5(2) by simp
  have c7: "fst (checkInitRateLimit fp t7 s5) = ?ok"
    using check_allowed[OF e5(1), of t7] f7 by force
  have p1: "checkInitRateLimit fp t1 s = (?ok, s1)"
    using c1 by (simp add: s1_def prod_eq_iff)
  have p2: "checkInitRateLimit fp t2 s1 = (?ok, s2)"
    using c2 by (simp add: s2_def prod_eq_iff)
  have p3: "checkInitRateLimit fp t3 s2 = (?ok, s3)"
    using c3 by (simp add: s3_def prod_eq_iff)
  have p4: "checkInitRateLimit fp t4 s3 = (?ok, s4)"
    using c4 by (simp add: s4_def prod_eq_iff)
  have p5: "checkInitRateLimit fp t5 s4 = (?ok, s5)"
    using c5 by (simp add: s5_def prod_eq_iff)
  have r6: "requests fp [t1, t2, t3, t4, t5, t6] s =
      ([?ok, ?ok, ?ok, ?ok, ?ok,
        \<lparr> allowed = False, retryAfter = Some (ceil_div_1000 (t1 + windowMs - t6)) \<rparr>], s5)"
    by (simp add: p1 p2 p3 p4 p5 c6)
  have r5: "requests fp [t1, t2, t3, t4, t5] s = ([?ok, ?ok, ?ok, ?ok, ?ok], s5)"
    by (simp add: p1 p2 p3 p4 p5)
  have pos: "0 < ceil_div_1000 (t1 + windowMs - t6)"
    using assms by (intro ceil_div_1000_pos) simp
  show ?thesis
    unfolding r6 r5 using pos ceil_div_1000_bounds[of "t1 + windowMs - t6"] c7 by simp
qed

theorem rate_limit_boundary_witness:
  "rl_lookup empty_db ''203.0.113.7'' = None \<and>
   map allowed (fst (requests ''203.0.113.7'' [0, 1000, 2000, 3000, 4000, 5500] empty_db)) =
     [True, True, True, True, True, False] \<and>
   map retryAfter (fst (requests ''203.0.113.7'' [0, 1000, 2000, 3000, 4000, 5500] empty_db)) =
     [None, None, None, None, None, Some 3595] \<and>
   fst (checkInitRateLimit ''203.0.113.7'' 3604000
          (snd (requests ''203.0.113.7'' [0, 1000, 2000, 3000, 4000, 5500] empty_db))) =
     \<lparr> allowed = True, retryAfter = None \<rparr>"
proof -
  have l: "rl_lookup empty_db ''203.0.113.7'' = None"
    by (simp add: rl_lookup_def empty_db_def)
  have o: "(0::int) \<le> 1000" "(1000::int) \<le> 2000" "(2000::int) \<le> 3000"
    "(3000::int) \<le> 4000" "(4000::int) \<le> 5500"
    by simp_all
  have w: "(5500::int) - 0 < windowMs" "(3604000::int) - 4000 \<ge> windowMs"
    by (simp_all add: windowMs_def)
  have c: "ceil_div_1000 (0 + windowMs - 5500) = 3595"
    by (simp add: ceil_div_1000_def windowMs_def)
  note t = rate_limit_boundary[OF l o w, unfolded c]
  from t have a: "map allowed
      (fst (requests ''203.0.113.7'' [0, 1000, 2000, 3000, 4000, 5500] empty_db)) =
     [True, True, True, True, True, False]"
    by (rule conjunct1)
  from t have b: "map retryAfter
      (fst (requests ''203.0.113.7'' [0, 1000, 2000, 3000, 4000, 5500] empty_db)) =
     [None, None, None, None, None, Some 3595]"
    by (elim conjE)
  from t have d: "fst (checkInitRateLimit ''203.0.113.7'' 3604000
          (snd (requests ''203.0.113.7'' [0, 1000, 2000, 3000, 4000, 5500] empty_db))) =
     \<lparr> allowed = True, retryAfter = None \<rparr>"
    by (elim conjE)
  from l a b d show ?thesis by (intro conjI)
qed

subsection \<open>Handle validation\<close>

lemma re_handle_starts_lower: "re_handle h \<Longrightarrow> re_starts_lower h"
  by (cases h) (auto simp: re_handle_def re_handle_long_def re_starts_lower_def split: list.splits)

lemma re_handle_long_iff: "3 \<le> length h \<Longrightarrow> re_handle h = re_handle_long h"
  by (cases h) (auto simp: re_handle_def split: list.splits)

lemma create_accepts_iff:
  "(create_validateHandle (Some h) = Inr (Some h)) =
   (re_handle h \<and> 3 \<le> length h \<and> length h \<le> 30)"
  by (auto simp: create_validateHandle_def)

lemma update_accepts_iff:
  "(update_validateHandle h = Inr h') =
   (h' = toLowerCase (trim h) \<and> 3 \<le> length h' \<and> length h' \<le> 30 \<and> re_handle_long h' \<and>
    \<not> re_double_hyphen h')"
  by (auto simp: update_validateHandle_def Let_def)

lemmas handle_eval =
  create_validateHandle_def update_validateHandle_def validateHandle_def spec_handle_format_def
  re_handle_def re_handle_long_def re_starts_lower_def is_lower_def is_digit_def is_space_def
  trim_def toLowerCase_def lower_char_def char_of_def bit_0 HANDLE_MIN_LENGTH_def
  HANDLE_MAX_LENGTH_def Let_def

text \<open>
  Claim C9, as stated: creation and rename give the same verdict on every string, and both
  reject exactly the strings that break the format rules. \<open>a--b\<close> breaks the rule on
  consecutive hyphens: creation takes it and rename refuses it. \<open>ABC\<close> is refused by
  creation and taken by rename, which stores \<open>abc\<close>.
\<close>

theorem handle_verdicts_differ:
  "create_validateHandle (Some ''a--b'') = Inr (Some ''a--b'') \<and>
   update_validateHandle ''a--b'' =
     Inl (ConvexError ''INVALID_HANDLE'' ''Handle cannot have consecutive hyphens'') \<and>
   \<not> spec_handle_format ''a--b'' \<and>
   create_validateHandle (Some ''ABC'') =
     Inl (ConvexError ''INVALID_HANDLE''
       ''Handle must be lowercase, start with a letter, and contain only letters, numbers, and hyphens'') \<and>
   update_validateHandle ''ABC'' = Inr ''abc''"
  by (simp add: handle_eval)

text \<open>
  Claim C9, amended. The rename path trims and lower-cases the string first, and accepts it
  exactly when the normalised string keeps the format rules (length 3 to 30, a first letter,
  the pattern, no consecutive hyphens); the normalised string is the new handle. The signup
  path (\<open>validateHandle\<close>) accepts exactly the strings that keep the rules. On a string
  without consecutive hyphens the creation path accepts exactly when the string, as it is,
  keeps the rules. So on strings that are already trimmed and lower-case and hold no two
  hyphens in a row, creation and rename agree.
\<close>

theorem handle_validation_paths:
  "((\<exists>h'. update_validateHandle h = Inr h') = spec_handle_format (toLowerCase (trim h))) \<and>
   (update_validateHandle h = Inr h' \<longrightarrow> h' = toLowerCase (trim h)) \<and>
   ((validateHandle h = None) = spec_handle_format h) \<and>
   (\<not> re_double_hyphen h \<longrightarrow>
      (create_validateHandle (Some h) = Inr (Some h)) = spec_handle_format h) \<and>
   (\<not> re_double_hyphen h \<and> toLowerCase (trim h) = h \<longrightarrow>
      (create_validateHandle (Some h) = Inr (Some h)) = (update_validateHandle h = Inr h))"
proof -
  have u: "(\<exists>h'. update_validateHandle h = Inr h') = spec_handle_format (toLowerCase (trim h))"
    using re_handle_long_iff[of "toLowerCase (trim h)"]
      re_handle_starts_lower[of "toLowerCase (trim h)"]
    by (auto simp: update_accepts_iff spec_handle_format_def)
  have v: "(validateHandle h = None) = spec_handle_format h"
    by (auto simp: validateHandle_def spec_handle_format_def HANDLE_MIN_LENGTH_def
        HANDLE_MAX_LENGTH_def)
  have c: "(create_validateHandle (Some h) = Inr (Some h)) = spec_handle_format h"
    if "\<not> re_double_hyphen h"
    using that re_handle_starts_lower[of h]
    by (auto simp: create_accepts_iff spec_handle_format_def)
  have e: "(create_validateHandle (Some h) = Inr (Some h)) = (update_validateHandle h = Inr h)"
    if "\<not> re_double_hyphen h \<and> toLowerCase (trim h) = h"
    using that re_handle_long_iff[of h]
    by (auto simp: create_accepts_iff update_accepts_iff)
  from u v c e show ?thesis
    by (simp add: update_accepts_iff)
qed

theorem handle_validation_paths_witness:
  "\<not> re_double_hyphen ''my-agent'' \<and> toLowerCase (trim ''my-agent'') = ''my-agent'' \<and>
   spec_handle_format ''my-agent'' \<and>
   create_validateHandle (Some ''my-agent'') = Inr (Some ''my-agent'') \<and>
   update_validateHandle ''my-agent'' = Inr ''my-agent'' \<and>
   validateHandle ''my-agent'' = None"
proof -
  have d: "\<not> re_double_hyphen ''my-agent''" by simp
  have n: "toLowerCase (trim ''my-agent'') = ''my-agent''"
    by (simp add: handle_eval)
  have f: "spec_handle_format ''my-agent''"
    by (simp add: handle_eval)
  note t = handle_validation_paths[of "''my-agent''" "''my-agent''"]
  from t d f have c: "create_validateHandle (Some ''my-agent'') = Inr (Some ''my-agent'')"
    by blast
  from t d n c have u: "update_validateHandle ''my-agent'' = Inr ''my-agent''"
    by blast
  from t f have v: "validateHandle ''my-agent'' = None"
    by blast
  from d n f c u v show ?thesis by (intro conjI)
qed

subsection \<open>Link tokens\<close>








lemmas token_eval =
  verifyClaimToken_def base64url_to_base64_def example_atob_def strip_padding_def
  b64_index_def example_hmac_def hex_digit_def parseInt10_def digits_value_def is_space_def
  is_digit_def constantTimeEqual_def charCode_def action_secret_def example_token_def
  forged_token_def char_of_def bit_0 Let_def

lemma example_token_verified:
  "verifyClaimToken example_atob example_hmac example_token (action_secret None) =
   Some \<lparr> v_signupRequestId = ''7'', v_expiry = 1000, v_isValid = True \<rparr>"
  by (simp add: token_eval)

lemma forged_token_decoded:
  "example_atob (base64url_to_base64 forged_token) = Some ''7:1000:0a9e'' \<and>
   example_hmac (action_secret None) ''7:1000'' = Some ''0a9d''"
  by (simp add: token_eval)








text \<open>With a token that is valid and not expired the human 2 claims the agent: in the
  example the key has an agent, and the claim links it.\<close>

lemma claim_succeeds_before_expiry:
  "fst (claimAgentPublic example_atob example_hmac example_decodeId None (Some 2)
          example_token 900 claim_db) = Inr \<lparr> success = True, cr_error = None \<rparr>"
  using example_token_verified
  by (simp add: claimAgentPublic_def claim_db_def review_db_def empty_db_def get_user_def
      get_request_def example_decodeId_def digits_value_def is_digit_def
      performClaimMigration_def get_apiKey_def linkAgentToHuman_def get_agent_def)

end
